theory Spec2Isabelle
  imports Complex_Main "HOL-Library.AList"
begin

section \<open>Numbers\<close>

text \<open>
  Prices, cash, share counts, indicator values and signals are IEEE doubles in the program
  (pandas columns and numpy scalars). A value is modelled as a real number, one of the two
  infinities, or the missing value NaN. Rounding, overflow and the sign of zero are not
  modelled: a finite result is the exact real result. What is kept is everything the program's
  control flow can see: NaN absorbs arithmetic, every comparison with NaN is false, and a numpy
  division by zero gives an infinity or NaN without raising.
\<close>

datatype flt = Fin real | PInf | NInf | NaN

fun fl_neg :: "flt \<Rightarrow> flt" where
  "fl_neg (Fin a) = Fin (- a)"
| "fl_neg PInf = NInf"
| "fl_neg NInf = PInf"
| "fl_neg NaN = NaN"

fun fl_add :: "flt \<Rightarrow> flt \<Rightarrow> flt" where
  "fl_add NaN _ = NaN"
| "fl_add _ NaN = NaN"
| "fl_add (Fin a) (Fin b) = Fin (a + b)"
| "fl_add (Fin a) PInf = PInf"
| "fl_add (Fin a) NInf = NInf"
| "fl_add PInf (Fin b) = PInf"
| "fl_add NInf (Fin b) = NInf"
| "fl_add PInf PInf = PInf"
| "fl_add NInf NInf = NInf"
| "fl_add PInf NInf = NaN"
| "fl_add NInf PInf = NaN"

definition fl_sub :: "flt \<Rightarrow> flt \<Rightarrow> flt" where
  "fl_sub x y = fl_add x (fl_neg y)"

text \<open>An infinity scaled by a finite factor: the sign follows the factor, and zero gives NaN.\<close>

definition inf_scale :: "bool \<Rightarrow> real \<Rightarrow> flt" where
  "inf_scale positive b =
     (if b = 0 then NaN else if (0 < b) = positive then PInf else NInf)"

fun fl_mul :: "flt \<Rightarrow> flt \<Rightarrow> flt" where
  "fl_mul NaN _ = NaN"
| "fl_mul _ NaN = NaN"
| "fl_mul (Fin a) (Fin b) = Fin (a * b)"
| "fl_mul (Fin a) PInf = inf_scale True a"
| "fl_mul (Fin a) NInf = inf_scale False a"
| "fl_mul PInf (Fin b) = inf_scale True b"
| "fl_mul NInf (Fin b) = inf_scale False b"
| "fl_mul PInf PInf = PInf"
| "fl_mul NInf NInf = PInf"
| "fl_mul PInf NInf = NInf"
| "fl_mul NInf PInf = NInf"

fun fl_div :: "flt \<Rightarrow> flt \<Rightarrow> flt" where
  "fl_div NaN _ = NaN"
| "fl_div _ NaN = NaN"
| "fl_div (Fin a) (Fin b) =
     (if b \<noteq> 0 then Fin (a / b)
      else if 0 < a then PInf else if a < 0 then NInf else NaN)"
| "fl_div (Fin a) PInf = Fin 0"
| "fl_div (Fin a) NInf = Fin 0"
| "fl_div PInf (Fin b) = (if 0 \<le> b then PInf else NInf)"
| "fl_div NInf (Fin b) = (if 0 \<le> b then NInf else PInf)"
| "fl_div PInf PInf = NaN"
| "fl_div NInf NInf = NaN"
| "fl_div PInf NInf = NaN"
| "fl_div NInf PInf = NaN"

fun fl_lt :: "flt \<Rightarrow> flt \<Rightarrow> bool" where
  "fl_lt NaN _ = False"
| "fl_lt _ NaN = False"
| "fl_lt (Fin a) (Fin b) = (a < b)"
| "fl_lt (Fin a) PInf = True"
| "fl_lt (Fin a) NInf = False"
| "fl_lt PInf _ = False"
| "fl_lt NInf (Fin b) = True"
| "fl_lt NInf PInf = True"
| "fl_lt NInf NInf = False"

text \<open>\<open>==\<close> on doubles: NaN is equal to nothing, itself included.\<close>

definition fl_eq :: "flt \<Rightarrow> flt \<Rightarrow> bool" where
  "fl_eq x y = (x \<noteq> NaN \<and> x = y)"

definition fl_le :: "flt \<Rightarrow> flt \<Rightarrow> bool" where
  "fl_le x y = (fl_lt x y \<or> fl_eq x y)"

text \<open>\<open>Series.shift(1)\<close>: every value moves one row down, the first row becomes NaN.\<close>

definition shift1 :: "flt list \<Rightarrow> flt list" where
  "shift1 xs = (case xs of [] \<Rightarrow> [] | _ # _ \<Rightarrow> NaN # butlast xs)"

section \<open>Signal generators (strategies.py)\<close>

text \<open>
  A feature table is a date-indexed data frame; the generators read it row by row in index
  order and never look at the dates, so a table is the list of its rows. Each generator
  returns the signal value of every row, in the same order.
\<close>

record feature_row =
  Close :: flt
  ema_fast :: flt
  ema_slow :: flt
  rsi :: flt
  vol :: flt
  bb_lower :: flt
  bb_upper :: flt
  macd :: flt
  macd_signal :: flt

type_synonym feature_table = "feature_row list"

text \<open>
  \<open>(a > b) & (a.shift(1) <= b.shift(1))\<close> and its mirror image, computed for the whole
  column at once before the loop starts.
\<close>

definition cross_up :: "flt list \<Rightarrow> flt list \<Rightarrow> bool list" where
  "cross_up a b =
     map2 (\<lambda>(x, y) (px, py). fl_lt y x \<and> fl_le px py)
       (zip a b) (zip (shift1 a) (shift1 b))"

definition cross_down :: "flt list \<Rightarrow> flt list \<Rightarrow> bool list" where
  "cross_down a b =
     map2 (\<lambda>(x, y) (px, py). fl_lt x y \<and> fl_le py px)
       (zip a b) (zip (shift1 a) (shift1 b))"

text \<open>One pass of the loop body of \<open>ema_rsi_vol_signals\<close>: the position after the row.\<close>

definition ema_rsi_vol_step ::
  "flt \<Rightarrow> flt \<Rightarrow> int \<Rightarrow> feature_row \<Rightarrow> bool \<Rightarrow> bool \<Rightarrow> int" where
  "ema_rsi_vol_step rsi_high vol_thresh position r cu cd =
     (if position = 0 \<and> cu \<and> fl_lt (rsi r) rsi_high \<and> fl_lt (vol r) vol_thresh then 1
      else if position = 1 \<and> (cd \<or> fl_lt rsi_high (rsi r) \<or> fl_lt vol_thresh (vol r)) then 0
      else position)"

fun ema_rsi_vol_loop ::
  "flt \<Rightarrow> flt \<Rightarrow> int \<Rightarrow> (feature_row \<times> bool \<times> bool) list \<Rightarrow> flt list" where
  "ema_rsi_vol_loop rsi_high vol_thresh position [] = []"
| "ema_rsi_vol_loop rsi_high vol_thresh position ((r, cu, cd) # rest) =
     (let position' = ema_rsi_vol_step rsi_high vol_thresh position r cu cd
      in Fin (of_int position') # ema_rsi_vol_loop rsi_high vol_thresh position' rest)"

definition ema_rsi_vol_signals :: "feature_table \<Rightarrow> flt \<Rightarrow> flt \<Rightarrow> flt list" where
  "ema_rsi_vol_signals df rsi_high vol_thresh =
     (let fast = map ema_fast df; slow = map ema_slow df
      in ema_rsi_vol_loop rsi_high vol_thresh 0
           (zip df (zip (cross_up fast slow) (cross_down fast slow))))"

definition bollinger_step :: "int \<Rightarrow> feature_row \<Rightarrow> int" where
  "bollinger_step position r =
     (let price = Close r; lower = bb_lower r; upper = bb_upper r;
          sma = fl_div (fl_add upper lower) (Fin 2)
      in if position = 0 \<and> fl_lt price lower then 1
         else if position = 1 \<and> fl_lt sma price then 0
         else position)"

fun bollinger_loop :: "int \<Rightarrow> feature_row list \<Rightarrow> flt list" where
  "bollinger_loop position [] = []"
| "bollinger_loop position (r # rest) =
     (let position' = bollinger_step position r
      in Fin (of_int position') # bollinger_loop position' rest)"

definition bollinger_signals :: "feature_table \<Rightarrow> flt list" where
  "bollinger_signals df = bollinger_loop 0 df"

definition macd_step :: "int \<Rightarrow> bool \<Rightarrow> bool \<Rightarrow> int" where
  "macd_step position cu cd =
     (if position = 0 \<and> cu then 1
      else if position = 1 \<and> cd then 0
      else position)"

fun macd_loop :: "int \<Rightarrow> (bool \<times> bool) list \<Rightarrow> flt list" where
  "macd_loop position [] = []"
| "macd_loop position ((cu, cd) # rest) =
     (let position' = macd_step position cu cd
      in Fin (of_int position') # macd_loop position' rest)"

definition macd_signals :: "feature_table \<Rightarrow> flt list" where
  "macd_signals df =
     (let m = map macd df; s = map macd_signal df
      in macd_loop 0 (zip (cross_up m s) (cross_down m s)))"

text \<open>The default thresholds of \<open>ema_rsi_vol_signals\<close>.\<close>

definition default_rsi_high :: flt where
  "default_rsi_high = Fin 70"

definition default_vol_thresh :: flt where
  "default_vol_thresh = Fin (6 / 10)"

section \<open>Portfolio simulator (backtester.py)\<close>

text \<open>
  Dates are day numbers. A pandas Series is the list of its (index, value) rows; of a price
  table only the \<open>Close\<close> column is ever read by the simulator, so a price table is the
  series of its closing prices. The index of an input series is ascending and free of
  duplicates, as \<open>data.py\<close> delivers it (\<open>sort_index\<close>). A Python dict is an
  association list in insertion order; its keys are distinct.
\<close>

type_synonym date = int
type_synonym ticker = string
type_synonym series = "(date \<times> flt) list"
type_synonym 'v dict = "(ticker \<times> 'v) list"

datatype error = KeyError | IndexError | ZeroDivisionError

text \<open>\<open>d[k]\<close> on a dict and \<open>s.at[dt]\<close> on a series: a missing label raises KeyError.\<close>

definition lookup :: "('k \<times> 'v) list \<Rightarrow> 'k \<Rightarrow> error + 'v" where
  "lookup d k = (case map_of d k of None \<Rightarrow> Inl KeyError | Some v \<Rightarrow> Inr v)"

text \<open>
  Sequencing of two computations that may raise: an exception of the first one skips the
  second.
\<close>

definition bind_err :: "error + 'a \<Rightarrow> ('a \<Rightarrow> error + 'b) \<Rightarrow> error + 'b" where
  "bind_err m f = (case m of Inl e \<Rightarrow> Inl e | Inr x \<Rightarrow> f x)"

definition at_loc :: "series \<Rightarrow> date \<Rightarrow> error + flt" where
  "at_loc s dt = lookup s dt"

text \<open>
  \<open>reindex(idx, method='ffill')\<close>: a label of the new index takes the value of the last row
  of the series whose label is not after it, and NaN when there is none. A NaN stored in the
  series is a value like any other and is carried forward.
\<close>

definition ffill_value :: "series \<Rightarrow> date \<Rightarrow> flt" where
  "ffill_value s dt =
     (case filter (\<lambda>(d, v). d \<le> dt) s of [] \<Rightarrow> NaN | r # rs \<Rightarrow> snd (last (r # rs)))"

definition reindex_ffill :: "series \<Rightarrow> date list \<Rightarrow> series" where
  "reindex_ffill s idx = map (\<lambda>dt. (dt, ffill_value s dt)) idx"

definition fillna :: "flt \<Rightarrow> series \<Rightarrow> series" where
  "fillna c s = map (\<lambda>(d, v). (d, if v = NaN then c else v)) s"

definition shift_series :: "series \<Rightarrow> series" where
  "shift_series s = zip (map fst s) (shift1 (map snd s))"

text \<open>\<open>sorted(set().union(*(df.index for df in data.values())))\<close>\<close>

definition union_index :: "series dict \<Rightarrow> date list" where
  "union_index data_dict = sort (remdups (concat (map (\<lambda>(t, df). map fst df) data_dict)))"

record backtest =
  data :: "series dict"
  signals :: "series dict"
  weights :: "flt dict"
  initial_capital :: flt
  slippage :: flt
  commission :: flt
  master_index :: "date list"

text \<open>A loop whose body may raise: the first exception ends it.\<close>

fun fold_err :: "('s \<Rightarrow> 'a \<Rightarrow> error + 's) \<Rightarrow> 's \<Rightarrow> 'a list \<Rightarrow> error + 's" where
  "fold_err f s [] = Inr s"
| "fold_err f s (x # xs) = bind_err (f s x) (\<lambda>s'. fold_err f s' xs)"

text \<open>The alignment loop at the end of \<open>__init__\<close>, over the tickers of \<open>data\<close>.\<close>

fun align_loop ::
  "date list \<Rightarrow> ticker list \<Rightarrow> series dict \<times> series dict \<Rightarrow> error + series dict \<times> series dict"
  where
  "align_loop idx [] (d, s) = Inr (d, s)"
| "align_loop idx (t # ts) (d, s) =
     bind_err (lookup d t) (\<lambda>df.
       let d' = AList.update t (reindex_ffill df idx) d
       in bind_err (lookup s t) (\<lambda>sg.
            align_loop idx ts
              (d', AList.update t (fillna (Fin 0) (reindex_ffill sg idx)) s)))"

definition default_weights :: "series dict \<Rightarrow> flt dict" where
  "default_weights data_dict = map (\<lambda>(t, df). (t, Fin (1 / real (length data_dict)))) data_dict"

text \<open>
  \<open>PortfolioBacktest.__init__\<close>. The argument \<open>weights\<close> is \<open>None\<close> or a dict; an empty
  dict is falsy, so \<open>weights or {...}\<close> replaces it by equal weights as well.
\<close>

definition init ::
  "series dict \<Rightarrow> series dict \<Rightarrow> flt dict option \<Rightarrow> flt \<Rightarrow> flt \<Rightarrow> flt \<Rightarrow> error + backtest" where
  "init data_dict signals_dict weights_arg capital slip comm =
     (let w = (case weights_arg of
                 None \<Rightarrow> default_weights data_dict
               | Some [] \<Rightarrow> default_weights data_dict
               | Some (x # xs) \<Rightarrow> x # xs);
          idx = union_index data_dict
      in bind_err (align_loop idx (map fst data_dict) (data_dict, signals_dict))
           (\<lambda>(d, s).
             Inr \<lparr>data = d, signals = s, weights = w, initial_capital = capital,
                  slippage = slip, commission = comm, master_index = idx\<rparr>))"

text \<open>
  A trade record is the dict appended at entry (\<open>entry_time\<close>, \<open>entry_price\<close>,
  \<open>shares\<close>) and completed at exit (\<open>exit_time\<close>, \<open>exit_price\<close>, \<open>proceeds\<close>); a key
  that is not there yet is \<open>None\<close>. Its share count is called \<open>trade_shares\<close> here, the
  name \<open>shares\<close> being the simulator's per-ticker dict.
\<close>

record trade =
  entry_time :: date
  entry_price :: flt
  trade_shares :: flt
  exit_time :: "date option"
  exit_price :: "flt option"
  proceeds :: "flt option"

text \<open>
  The local variables of \<open>run\<close>. The dicts \<open>positions\<close>, \<open>shares\<close> and \<open>trades\<close> are
  created with the tickers of \<open>data\<close> as keys and are only indexed by these tickers, so
  they are total functions of the ticker.
\<close>

record sim_state =
  portfolio_cash :: flt
  positions :: "ticker \<Rightarrow> int"
  shares :: "ticker \<Rightarrow> flt"
  trades :: "ticker \<Rightarrow> trade list"
  portfolio_value :: flt
  equity_curve :: series

definition initial_state :: "backtest \<Rightarrow> sim_state" where
  "initial_state bt =
     \<lparr>portfolio_cash = initial_capital bt, positions = (\<lambda>t. 0), shares = (\<lambda>t. Fin 0),
      trades = (\<lambda>t. []), portfolio_value = Fin 0, equity_curve = []\<rparr>"

text \<open>The branch taken by the \<open>if\<close>/\<open>elif\<close> of the loop body.\<close>

datatype action = Entry | Exit | Hold

definition decide :: "flt \<Rightarrow> flt \<Rightarrow> int \<Rightarrow> action" where
  "decide sig prev_sig pos =
     (if fl_eq sig (Fin 1) \<and> fl_eq prev_sig (Fin 0) then Entry
      else if fl_eq sig (Fin 0) \<and> fl_eq prev_sig (Fin 1) \<and> pos = 1 then Exit
      else Hold)"

definition enter :: "backtest \<Rightarrow> date \<Rightarrow> ticker \<Rightarrow> flt \<Rightarrow> sim_state \<Rightarrow> error + sim_state" where
  "enter bt dt t price st =
     bind_err (lookup (weights bt) t) (\<lambda>w.
      let cash_alloc = fl_mul (portfolio_cash st) w;
          sh = fl_div cash_alloc price;
          cost = fl_add (fl_mul (fl_mul sh price) (fl_add (Fin 1) (slippage bt))) (commission bt)
      in Inr (st\<lparr>shares := (shares st)(t := sh),
                 portfolio_cash := fl_sub (portfolio_cash st) cost,
                 trades := (trades st)(t := trades st t @
                   [\<lparr>entry_time = dt,
                     entry_price = fl_mul price (fl_add (Fin 1) (slippage bt)),
                     trade_shares = sh,
                     exit_time = None, exit_price = None, proceeds = None\<rparr>]),
                 positions := (positions st)(t := 1)\<rparr>))"

definition exit_position ::
  "backtest \<Rightarrow> date \<Rightarrow> ticker \<Rightarrow> flt \<Rightarrow> sim_state \<Rightarrow> error + sim_state" where
  "exit_position bt dt t price st =
     (let ex_price = fl_mul price (fl_sub (Fin 1) (slippage bt));
          pr = fl_sub (fl_mul (shares st t) ex_price) (commission bt)
      in case trades st t of
           [] \<Rightarrow> Inl IndexError
         | r # rs \<Rightarrow>
             Inr (st\<lparr>portfolio_cash := fl_add (portfolio_cash st) pr,
                     trades := (trades st)(t := butlast (r # rs) @
                       [(last (r # rs))\<lparr>exit_time := Some dt, exit_price := Some ex_price,
                                        proceeds := Some pr\<rparr>]),
                     shares := (shares st)(t := Fin 0),
                     positions := (positions st)(t := 0)\<rparr>))"

text \<open>
  \<open>self.signals[t].shift(1).at[dt] if dt != self.master_index[0] else 0\<close>
\<close>

definition prev_signal :: "backtest \<Rightarrow> series \<Rightarrow> date \<Rightarrow> error + flt" where
  "prev_signal bt sg dt =
     (case master_index bt of
        [] \<Rightarrow> Inl IndexError
      | d0 # ds \<Rightarrow> if dt \<noteq> d0 then at_loc (shift_series sg) dt else Inr (Fin 0))"

text \<open>The body of the inner loop, for one ticker at one date.\<close>

definition step_ticker :: "backtest \<Rightarrow> date \<Rightarrow> sim_state \<Rightarrow> ticker \<times> series \<Rightarrow> error + sim_state"
  where
  "step_ticker bt dt st tdf =
     (case tdf of (t, df) \<Rightarrow>
      bind_err (at_loc df dt) (\<lambda>price.
      bind_err (lookup (signals bt) t) (\<lambda>sg.
      bind_err (at_loc sg dt) (\<lambda>sig.
      bind_err (prev_signal bt sg dt) (\<lambda>prev_sig.
      bind_err (case decide sig prev_sig (positions st t) of
                  Entry \<Rightarrow> enter bt dt t price st
                | Exit \<Rightarrow> exit_position bt dt t price st
                | Hold \<Rightarrow> Inr st) (\<lambda>st'.
        Inr (st'\<lparr>portfolio_value :=
                  fl_add (portfolio_value st') (fl_mul (shares st' t) price)\<rparr>)))))))"

text \<open>The body of the outer loop, for one date of the master index.\<close>

definition step_date :: "backtest \<Rightarrow> sim_state \<Rightarrow> date \<Rightarrow> error + sim_state" where
  "step_date bt st dt =
     bind_err (fold_err (step_ticker bt dt) (st\<lparr>portfolio_value := Fin 0\<rparr>) (data bt))
       (\<lambda>st'.
          Inr (st'\<lparr>equity_curve := equity_curve st' @
                    [(dt, fl_add (portfolio_cash st') (portfolio_value st'))]\<rparr>))"

definition run_state :: "backtest \<Rightarrow> error + sim_state" where
  "run_state bt = fold_err (step_date bt) (initial_state bt) (master_index bt)"

definition run :: "backtest \<Rightarrow> error + series \<times> trade list dict" where
  "run bt =
     bind_err (run_state bt)
       (\<lambda>st. Inr (equity_curve st, map (\<lambda>(t, df). (t, trades st t)) (data bt)))"

text \<open>Constructing the simulator and running it, as \<open>app.py\<close> does.\<close>

definition backtest_run ::
  "series dict \<Rightarrow> series dict \<Rightarrow> flt dict option \<Rightarrow> flt \<Rightarrow> flt \<Rightarrow> flt \<Rightarrow>
     error + series \<times> trade list dict" where
  "backtest_run data_dict signals_dict weights_arg capital slip comm =
     bind_err (init data_dict signals_dict weights_arg capital slip comm) run"

section \<open>Metrics (backtester.py, app.py)\<close>

text \<open>
  The statistics read the values of the equity curve in index order; only \<open>cagr\<close> reads the
  dates. pandas reductions skip NaN (\<open>skipna=True\<close>); \<open>pct_change\<close> is taken without
  filling gaps first, which is what it does on a curve without NaN.
\<close>

definition dropna :: "flt list \<Rightarrow> flt list" where
  "dropna xs = filter (\<lambda>v. v \<noteq> NaN) xs"

definition fillna0 :: "flt list \<Rightarrow> flt list" where
  "fillna0 xs = map (\<lambda>v. if v = NaN then Fin 0 else v) xs"

definition pct_change :: "flt list \<Rightarrow> flt list" where
  "pct_change xs = map2 (\<lambda>x px. fl_sub (fl_div x px) (Fin 1)) xs (shift1 xs)"

definition fl_sum :: "flt list \<Rightarrow> flt" where
  "fl_sum xs = foldl fl_add (Fin 0) (dropna xs)"

definition fl_mean :: "flt list \<Rightarrow> flt" where
  "fl_mean xs =
     (let ys = dropna xs
      in if ys = [] then NaN else fl_div (fl_sum ys) (Fin (real (length ys))))"

fun fl_sqrt :: "flt \<Rightarrow> flt" where
  "fl_sqrt (Fin a) = (if 0 \<le> a then Fin (sqrt a) else NaN)"
| "fl_sqrt PInf = PInf"
| "fl_sqrt NInf = NaN"
| "fl_sqrt NaN = NaN"

text \<open>A plain sum, which skips nothing: one NaN among the summands makes it NaN.\<close>

definition fl_total :: "flt list \<Rightarrow> flt" where
  "fl_total xs = foldl fl_add (Fin 0) xs"

text \<open>
  \<open>Series.std()\<close>: the sample standard deviation (\<open>ddof=1\<close>), NaN below two values. The
  NaN of the series are skipped; the squared deviations of the values that remain are added
  up as they are, so that an infinite value, whose deviation from the infinite mean is NaN,
  makes the result NaN.
\<close>

definition fl_std :: "flt list \<Rightarrow> flt" where
  "fl_std xs =
     (let ys = dropna xs; n = length ys
      in if n < 2 then NaN
         else let m = fl_div (fl_sum ys) (Fin (real n));
                  sq = map (\<lambda>y. fl_mul (fl_sub y m) (fl_sub y m)) ys
              in fl_sqrt (fl_div (fl_total sq) (Fin (real n - 1))))"

text \<open>\<open>Series.max()\<close> and \<open>Series.cummax()\<close>, both skipping NaN.\<close>

definition fl_max2 :: "flt \<Rightarrow> flt \<Rightarrow> flt" where
  "fl_max2 a b = (if fl_lt a b then b else a)"

definition fl_maximum :: "flt list \<Rightarrow> flt" where
  "fl_maximum xs = (case dropna xs of [] \<Rightarrow> NaN | y # ys \<Rightarrow> foldl fl_max2 y ys)"

fun cummax_loop :: "flt \<Rightarrow> flt list \<Rightarrow> flt list" where
  "cummax_loop m [] = []"
| "cummax_loop m (x # xs) =
     (if x = NaN then NaN # cummax_loop m xs
      else let m' = (if m = NaN \<or> fl_lt m x then x else m)
           in m' # cummax_loop m' xs)"

definition cummax :: "flt list \<Rightarrow> flt list" where
  "cummax xs = cummax_loop NaN xs"

text \<open>\<open>(equity.cummax() - equity) / equity.cummax()\<close>\<close>

definition drawdown :: "flt list \<Rightarrow> flt list" where
  "drawdown xs = map2 (\<lambda>c x. fl_div (fl_sub c x) c) (cummax xs) xs"

text \<open>
  \<open>x ** e\<close> for a double \<open>x\<close> and a finite exponent \<open>e\<close>: a negative base has a power
  only for an integral exponent.
\<close>

definition fl_pow :: "flt \<Rightarrow> real \<Rightarrow> flt" where
  "fl_pow x e =
     (if e = 0 then Fin 1
      else case x of
             NaN \<Rightarrow> NaN
           | Fin b \<Rightarrow>
               (if 0 < b then Fin (b powr e)
                else if b = 0 then (if 0 < e then Fin 0 else PInf)
                else if e \<in> \<int> then Fin (b powi \<lfloor>e\<rfloor>) else NaN)
           | PInf \<Rightarrow> (if 0 < e then PInf else Fin 0)
           | NInf \<Rightarrow>
               (if 0 < e then (if e \<in> \<int> \<and> odd \<lfloor>e\<rfloor> then NInf else PInf) else Fin 0))"

record metrics =
  total_return :: flt
  annualized_return :: flt
  annualized_vol :: flt
  sharpe :: flt
  max_drawdown :: flt

text \<open>\<open>PortfolioBacktest.compute_metrics\<close>; \<open>iloc[-1]\<close> on an empty curve raises.\<close>

definition compute_metrics :: "series \<Rightarrow> error + metrics" where
  "compute_metrics curve =
     (let e = map snd curve;
          returns = fillna0 (pct_change e)
      in case e of
           [] \<Rightarrow> Inl IndexError
         | x # xs \<Rightarrow>
             let total = fl_sub (fl_div (last (x # xs)) x) (Fin 1);
                 ann_return =
                   (if 1 < length e
                    then fl_sub (fl_pow (fl_add (Fin 1) total) (252 / real (length e))) (Fin 1)
                    else Fin 0);
                 ann_vol = fl_mul (fl_std returns) (Fin (sqrt 252));
                 sh = (if fl_lt (Fin 0) ann_vol then fl_div ann_return ann_vol else NaN);
                 max_dd = fl_maximum (drawdown e)
             in Inr \<lparr>total_return = total, annualized_return = ann_return,
                     annualized_vol = ann_vol, sharpe = sh, max_drawdown = max_dd\<rparr>)"

text \<open>
  The helpers of \<open>app.py\<close>. In \<open>cagr\<close> the number of years is a Python float, and
  \<open>1 / years\<close> is a Python division: it raises ZeroDivisionError when the first and the last
  date of the curve are the same day.
\<close>

definition cagr :: "series \<Rightarrow> error + flt" where
  "cagr equity =
     (case equity of
        [] \<Rightarrow> Inl IndexError
      | r # rs \<Rightarrow>
          let years = real_of_int (fst (last (r # rs)) - fst r) / (36525 / 100)
          in if years = 0 then Inl ZeroDivisionError
             else Inr (fl_sub (fl_pow (fl_div (snd (last (r # rs))) (snd r)) (1 / years))
                         (Fin 1)))"

definition sortino_ratio :: "series \<Rightarrow> flt \<Rightarrow> flt" where
  "sortino_ratio equity risk_free =
     (let returns = dropna (pct_change (map snd equity));
          downside = filter (\<lambda>r. fl_lt r (Fin 0)) returns
      in if fl_eq (fl_std downside) (Fin 0) then NaN
         else fl_mul (fl_div (fl_sub (fl_mean returns) (fl_div risk_free (Fin 252)))
                        (fl_std downside))
                (Fin (sqrt 252)))"

definition calmar_ratio :: "series \<Rightarrow> error + flt" where
  "calmar_ratio equity =
     bind_err (cagr equity) (\<lambda>total_cagr.
       let max_dd = fl_maximum (drawdown (map snd equity))
       in Inr (if fl_lt (Fin 0) max_dd then fl_div total_cagr max_dd else NaN))"

definition omega_ratio :: "series \<Rightarrow> flt \<Rightarrow> flt" where
  "omega_ratio equity target =
     (let returns = dropna (pct_change (map snd equity));
          gains = fl_sum (map (\<lambda>r. fl_sub r target) (filter (\<lambda>r. fl_lt target r) returns));
          losses = fl_neg (fl_sum (map (\<lambda>r. fl_sub r target)
                                    (filter (\<lambda>r. fl_lt r target) returns)))
      in if \<not> fl_eq losses (Fin 0) then fl_div gains losses else NaN)"

section \<open>The caller's dicts (backtester.py, \<open>__init__\<close>)\<close>

text \<open>
  \<open>self.data = data_dict\<close> binds the caller's dict object itself, and the alignment loop
  assigns into it. To say what the caller sees afterwards, objects get an identity: a heap
  holds the table and series objects and the dict objects, each under its address, and a dict
  maps a ticker to the address of its table or series. \<open>reindex\<close> and \<open>fillna\<close> return
  new objects, which are allocated at the next free address.
\<close>

type_synonym addr = nat

record heap =
  frames :: "addr \<Rightarrow> series"
  dicts :: "addr \<Rightarrow> addr dict"
  next_frame :: addr

definition alloc_frame :: "heap \<Rightarrow> series \<Rightarrow> addr \<times> heap" where
  "alloc_frame h s =
     (next_frame h,
      h\<lparr>frames := (frames h)(next_frame h := s), next_frame := Suc (next_frame h)\<rparr>)"

text \<open>\<open>d[t] = a\<close> on the dict object at address \<open>d\<close>.\<close>

definition dict_set :: "heap \<Rightarrow> addr \<Rightarrow> ticker \<Rightarrow> addr \<Rightarrow> heap" where
  "dict_set h d t a = h\<lparr>dicts := (dicts h)(d := AList.update t a (dicts h d))\<rparr>"

text \<open>The contents of a dict object, with every value read through its address.\<close>

definition deref :: "heap \<Rightarrow> addr \<Rightarrow> series dict" where
  "deref h d = map (\<lambda>(t, a). (t, frames h a)) (dicts h d)"

text \<open>
  The alignment loop on the heap; \<open>da\<close> and \<open>sa\<close> are the addresses of \<open>self.data\<close> and
  \<open>self.signals\<close>. An exception leaves the heap as it is at that moment.
\<close>

fun align_heap :: "date list \<Rightarrow> addr \<Rightarrow> addr \<Rightarrow> ticker list \<Rightarrow> heap \<Rightarrow> heap \<times> error option"
  where
  "align_heap idx da sa [] h = (h, None)"
| "align_heap idx da sa (t # ts) h =
     (case lookup (dicts h da) t of
        Inl e \<Rightarrow> (h, Some e)
      | Inr fa \<Rightarrow>
          (let (na, h1) = alloc_frame h (reindex_ffill (frames h fa) idx);
               h2 = dict_set h1 da t na
           in (case lookup (dicts h2 sa) t of
                 Inl e \<Rightarrow> (h2, Some e)
               | Inr ga \<Rightarrow>
                   (let (nb, h3) =
                          alloc_frame h2 (fillna (Fin 0) (reindex_ffill (frames h2 ga) idx));
                        h4 = dict_set h3 sa t nb
                    in align_heap idx da sa ts h4))))"

text \<open>
  What \<open>__init__\<close> does to the heap when it is called with the dict objects at
  \<open>data_dict\<close> and \<open>signals_dict\<close>: the two dicts are not copied.
\<close>

definition init_heap :: "heap \<Rightarrow> addr \<Rightarrow> addr \<Rightarrow> heap \<times> error option" where
  "init_heap h data_dict signals_dict =
     align_heap (union_index (deref h data_dict)) data_dict signals_dict
       (map fst (dicts h data_dict)) h"

text \<open>Every address stored in the dict at \<open>d\<close> is allocated.\<close>

definition dict_allocated :: "heap \<Rightarrow> addr \<Rightarrow> bool" where
  "dict_allocated h d = list_all (\<lambda>(t, a). a < next_frame h) (dicts h d)"

section \<open>Statements taken from the specification\<close>

text \<open>
  The daily percentage returns of a curve \<open>e\<^sub>0, \<dots>, e\<^sub>n\<close>: one return
  \<open>e\<^sub>i / e\<^sub>i\<^sub>-\<^sub>1 - 1\<close> for each day after the first.
\<close>

definition daily_returns :: "flt list \<Rightarrow> flt list" where
  "daily_returns e = map2 (\<lambda>x px. fl_sub (fl_div x px) (Fin 1)) (tl e) (butlast e)"

text \<open>
  ``Annualized volatility: standard deviation of daily percentage returns times the square
  root of 252'', as the specification words it.
\<close>

definition spec_annualized_vol :: "series \<Rightarrow> flt" where
  "spec_annualized_vol curve = fl_mul (fl_std (daily_returns (map snd curve))) (Fin (sqrt 252))"

text \<open>A signal series is all flat when every value it holds is 0.\<close>

definition all_flat :: "flt list \<Rightarrow> bool" where
  "all_flat s = list_all (\<lambda>v. v = Fin 0) s"

text \<open>A signal value of the data model: 0 (flat) or 1 (long).\<close>

definition binary :: "flt \<Rightarrow> bool" where
  "binary v = (v = Fin 0 \<or> v = Fin 1)"

section \<open>Example inputs\<close>

text \<open>A feature row whose close lies below the lower band.\<close>

definition row0 :: feature_row where
  "row0 = \<lparr>Close = Fin 90, ema_fast = Fin 100, ema_slow = Fin 100, rsi = Fin 50,
            vol = Fin (3 / 10), bb_lower = Fin 95, bb_upper = Fin 105,
            macd = Fin 0, macd_signal = Fin 0\<rparr>"

text \<open>
  Three rows: the fast average crosses above the slow one in the second row and stays above
  it in the third, where the oscillator is exactly 70 and the volatility is 0.7.
\<close>

definition held_rows :: feature_table where
  "held_rows =
     [row0\<lparr>ema_fast := Fin 99\<rparr>,
      row0\<lparr>ema_fast := Fin 101\<rparr>,
      row0\<lparr>ema_fast := Fin 102, rsi := Fin 70, vol := Fin (7 / 10)\<rparr>]"

text \<open>
  The scenario of the specification: one instrument over five dates, long on the second and
  third date.
\<close>

definition scenario_prices :: "series dict" where
  "scenario_prices =
     [(''A'', [(0, Fin 100), (1, Fin 105), (2, Fin 95), (3, Fin 110), (4, Fin 120)])]"

definition scenario_signals :: "series dict" where
  "scenario_signals =
     [(''A'', [(0, Fin 0), (1, Fin 1), (2, Fin 1), (3, Fin 0), (4, Fin 0)])]"

text \<open>
  Two instruments with different first dates: \<open>B\<close> has no price on day 0. Both stay flat.
\<close>

definition gap_prices :: "series dict" where
  "gap_prices = [(''A'', [(0, Fin 100), (1, Fin 105)]), (''B'', [(1, Fin 50)])]"

definition gap_signals :: "series dict" where
  "gap_signals = [(''A'', [(0, Fin 0), (1, Fin 0)]), (''B'', [(1, Fin 0)])]"

text \<open>An equity curve with a single observation, and one growing by 10 percent a day.\<close>

definition single_point_curve :: series where
  "single_point_curve = [(0, Fin 1000)]"

definition growth_curve :: series where
  "growth_curve = [(0, Fin 100), (1, Fin 110), (2, Fin 121)]"

text \<open>
  A simulator over two days for one instrument, long on the first day and flat on the second,
  with half of the cash allocated; and the same with 10 percent slippage and a commission
  of 5.
\<close>

definition demo_bt :: backtest where
  "demo_bt = \<lparr>data = [(''A'', [(0, Fin 100), (1, Fin 100)])],
              signals = [(''A'', [(0, Fin 1), (1, Fin 0)])],
              weights = [(''A'', Fin (1 / 2))], initial_capital = Fin 1000,
              slippage = Fin 0, commission = Fin 0, master_index = [0, 1]\<rparr>"

definition slip_bt :: backtest where
  "slip_bt = demo_bt\<lparr>slippage := Fin (1 / 10), commission := Fin 5\<rparr>"

text \<open>A state that holds 4 shares of every ticker, bought at time 0.\<close>

definition holding_state :: sim_state where
  "holding_state =
     (initial_state slip_bt)
       \<lparr>shares := (\<lambda>t. Fin 4),
        trades := (\<lambda>t. [\<lparr>entry_time = 0, entry_price = Fin 110, trade_shares = Fin 4,
                          exit_time = None, exit_price = None, proceeds = None\<rparr>])\<rparr>"

text \<open>Two instruments that both enter on the only date.\<close>

definition one_day_prices :: "series dict" where
  "one_day_prices = [(''A'', [(0, Fin 100)]), (''B'', [(0, Fin 50)])]"

definition one_day_signals :: "series dict" where
  "one_day_signals = [(''A'', [(0, Fin 1)]), (''B'', [(0, Fin 1)])]"

text \<open>The trade log of the run of \<open>demo_bt\<close>.\<close>

definition round_trip_log :: "trade list" where
  "round_trip_log = [\<lparr>entry_time = 0, entry_price = Fin 100, trade_shares = Fin 5,
                       exit_time = Some 1, exit_price = Some (Fin 100),
                       proceeds = Some (Fin 500)\<rparr>]"

section \<open>Invariants of a run\<close>

text \<open>
  A trade log is well formed when its entries are at strictly increasing dates, every exit
  is strictly after the entry of its record, and no date is both an entry date and an exit
  date.
\<close>

definition log_wf :: "trade list \<Rightarrow> bool" where
  "log_wf ls =
     (sorted_wrt (\<lambda>r r'. entry_time r < entry_time r') ls \<and>
      (\<forall>r \<in> set ls. \<forall>x. exit_time r = Some x \<longrightarrow> entry_time r < x) \<and>
      (\<forall>r \<in> set ls. \<forall>r' \<in> set ls. exit_time r' \<noteq> Some (entry_time r)))"

text \<open>Every date recorded in the log is before \<open>b\<close>.\<close>

definition log_before :: "date \<Rightarrow> trade list \<Rightarrow> bool" where
  "log_before b ls =
     (\<forall>r \<in> set ls. entry_time r < b \<and> (\<forall>x. exit_time r = Some x \<longrightarrow> x < b))"

text \<open>
  While the position flag of a ticker is 1, the last record of its log is open and holds the
  share count of the position.
\<close>

definition open_pos :: "sim_state \<Rightarrow> ticker \<Rightarrow> bool" where
  "open_pos st t =
     (positions st t = 1 \<longrightarrow>
        trades st t \<noteq> [] \<and> exit_time (last (trades st t)) = None \<and>
        trade_shares (last (trades st t)) = shares st t)"

definition ticker_inv :: "date \<Rightarrow> sim_state \<Rightarrow> ticker \<Rightarrow> bool" where
  "ticker_inv b st t = (log_wf (trades st t) \<and> log_before b (trades st t) \<and> open_pos st t)"

section \<open>The alignment loop on the heap, step by step\<close>

text \<open>One pass of the loop body, when it does not raise.\<close>

definition align_one :: "date list \<Rightarrow> addr \<Rightarrow> addr \<Rightarrow> ticker \<Rightarrow> addr \<Rightarrow> addr \<Rightarrow> heap \<Rightarrow> heap" where
  "align_one idx da sa t fa ga h =
     h\<lparr>frames := (frames h)
          (next_frame h := reindex_ffill (frames h fa) idx,
           Suc (next_frame h) := fillna (Fin 0) (reindex_ffill (frames h ga) idx)),
       next_frame := Suc (Suc (next_frame h)),
       dicts := (dicts h)
          (da := AList.update t (next_frame h) (dicts h da),
           sa := AList.update t (Suc (next_frame h)) (dicts h sa))\<rparr>"

text \<open>
  After the loop, the two dicts map ticker \<open>t\<close> to objects allocated by the loop, which
  hold the realigned contents of the objects they mapped \<open>t\<close> to before.
\<close>

definition realigned :: "date list \<Rightarrow> addr \<Rightarrow> addr \<Rightarrow> heap \<Rightarrow> heap \<Rightarrow> ticker \<Rightarrow> bool" where
  "realigned idx da sa h h' t =
     (\<exists>a a' g g'.
        lookup (dicts h da) t = Inr a \<and> lookup (dicts h' da) t = Inr a' \<and>
        next_frame h \<le> a' \<and> frames h' a' = reindex_ffill (frames h a) idx \<and>
        lookup (dicts h sa) t = Inr g \<and> lookup (dicts h' sa) t = Inr g' \<and>
        next_frame h \<le> g' \<and> frames h' g' = fillna (Fin 0) (reindex_ffill (frames h g) idx))"

text \<open>
  A heap with the price tables of \<open>A\<close> and \<open>B\<close> at addresses 0 and 1, their signal
  series at 2 and 3, the caller's \<open>data_dict\<close> as dict 0 and \<open>signals_dict\<close> as
  dict 1.
\<close>

definition two_ticker_heap :: heap where
  "two_ticker_heap =
     \<lparr>frames = (\<lambda>a. [])(0 := [(0, Fin 100), (1, Fin 101)], 1 := [(1, Fin 50)],
                         2 := [(0, Fin 0), (1, Fin 0)], 3 := [(1, Fin 0)]),
      dicts = (\<lambda>a. [])(0 := [(''A'', 0), (''B'', 1)], 1 := [(''A'', 2), (''B'', 3)]),
      next_frame = 4\<rparr>"

section \<open>The entry rule of the specification\<close>








section \<open>Closed trades\<close>

text \<open>
  A record of the log of a ticker with price table \<open>df\<close> is in order when it is open, or
  when its exit date has a close in \<open>df\<close>, its exit price is that close reduced by the
  slippage, and its proceeds are its share count times that exit price, less the commission.
\<close>

definition exit_recorded :: "backtest \<Rightarrow> series \<Rightarrow> trade \<Rightarrow> bool" where
  "exit_recorded bt df r =
     (case exit_time r of
        None \<Rightarrow> True
      | Some x \<Rightarrow>
          \<not> isl (at_loc df x) \<and>
          exit_price r =
            Some (fl_mul (projr (at_loc df x)) (fl_sub (Fin 1) (slippage bt))) \<and>
          proceeds r =
            Some (fl_sub (fl_mul (trade_shares r)
                    (fl_mul (projr (at_loc df x)) (fl_sub (Fin 1) (slippage bt))))
                  (commission bt)))"

text \<open>
  Every position that is open is recorded, and every record of a ticker of \<open>data\<close> is in
  order.
\<close>

definition exits_recorded :: "backtest \<Rightarrow> sim_state \<Rightarrow> bool" where
  "exits_recorded bt st =
     ((\<forall>t. open_pos st t) \<and>
      (\<forall>(t, df) \<in> set (data bt). \<forall>r \<in> set (trades st t). exit_recorded bt df r))"

text \<open>
  One instrument that closes at 100 and then at 120, long on the first day and flat on the
  second, and the trade log of its run with half of the cash allocated, 10 percent slippage
  and a commission of 5.
\<close>

definition rise_prices :: "series dict" where
  "rise_prices = [(''A'', [(0, Fin 100), (1, Fin 120)])]"

definition rise_signals :: "series dict" where
  "rise_signals = [(''A'', [(0, Fin 1), (1, Fin 0)])]"

definition rise_log :: "trade list" where
  "rise_log = [\<lparr>entry_time = 0, entry_price = Fin 110, trade_shares = Fin 5,
                 exit_time = Some 1, exit_price = Some (Fin 108),
                 proceeds = Some (Fin 535)\<rparr>]"

text \<open>The same instrument with a close of 0 on both days.\<close>

definition zero_prices :: "series dict" where
  "zero_prices = [(''A'', [(0, Fin 0), (1, Fin 0)])]"

section \<open>The states that the loops of a run pass through\<close>

text \<open>
  The loop of \<open>fold_err\<close>, recording each element together with the state in which the
  body is entered for it. Like the loop, it ends with the first exception.
\<close>

fun fold_visits :: "('s \<Rightarrow> 'a \<Rightarrow> error + 's) \<Rightarrow> 's \<Rightarrow> 'a list \<Rightarrow> ('a \<times> 's) list" where
  "fold_visits f s [] = []"
| "fold_visits f s (x # xs) =
     (x, s) # (case f s x of Inl e \<Rightarrow> [] | Inr s' \<Rightarrow> fold_visits f s' xs)"

text \<open>
  The passes of the inner loop of \<open>run\<close> on date \<open>dt\<close>, started in state \<open>st\<close>: the date,
  the ticker, its table and the state in which the body is entered.
\<close>

definition ticker_visits ::
  "backtest \<Rightarrow> date \<Rightarrow> sim_state \<Rightarrow> (date \<times> ticker \<times> series \<times> sim_state) list" where
  "ticker_visits bt dt st =
     map (\<lambda>((t, df), s). (dt, t, df, s))
       (fold_visits (step_ticker bt dt) (st\<lparr>portfolio_value := Fin 0\<rparr>) (data bt))"

text \<open>All passes of the inner loop body in a run, in the order of the run.\<close>

definition run_visits :: "backtest \<Rightarrow> (date \<times> ticker \<times> series \<times> sim_state) list" where
  "run_visits bt =
     concat (map (\<lambda>(dt, st). ticker_visits bt dt st)
       (fold_visits (step_date bt) (initial_state bt) (master_index bt)))"

text \<open>The date and the ticker of a pass.\<close>

definition visit_key :: "date \<times> ticker \<times> series \<times> sim_state \<Rightarrow> date \<times> ticker" where
  "visit_key v = (case v of (dt, t, df, st) \<Rightarrow> (dt, t))"

text \<open>The state in which the run of \<open>demo_bt\<close> enters the loop body on the second day.\<close>

definition demo_open_state :: sim_state where
  "demo_open_state =
     \<lparr>portfolio_cash = Fin 500, positions = (\<lambda>t. 0)(''A'' := 1),
      shares = (\<lambda>t. Fin 0)(''A'' := Fin 5),
      trades = (\<lambda>t. [])(''A'' := [\<lparr>entry_time = 0, entry_price = Fin 100,
                 trade_shares = Fin 5, exit_time = None, exit_price = None,
                 proceeds = None\<rparr>]),
      portfolio_value = Fin 0, equity_curve = [(0, Fin 1000)]\<rparr>"

section \<open>The run on the heap (backtester.py, \<open>run\<close>)\<close>

text \<open>
  \<open>run\<close> with the objects it touches in the heap. The attributes of the simulator that are
  plain values (weights, capital, slippage, commission, master index) are read from \<open>bt\<close>;
  \<open>self.data\<close> and \<open>self.signals\<close> are the dict objects at \<open>da\<close> and \<open>sa\<close>, and every
  table and series is read through its address. The Series that \<open>shift(1)\<close> returns and the
  equity curve are new objects, allocated at the next free address; \<open>equity_curve.loc[dt]\<close>
  is assigned in the heap, so the field \<open>equity_curve\<close> of the state is not used here. The
  dicts \<open>trades\<close>, \<open>positions\<close> and \<open>shares\<close> are created by \<open>run\<close> and hold no table or
  series; they stay in the state. An exception leaves the heap as it is at that moment.
\<close>

text \<open>
  \<open>self.signals[t].shift(1).at[dt] if dt != self.master_index[0] else 0\<close>, for the series
  at \<open>ga\<close>.
\<close>

definition prev_signal_heap :: "backtest \<Rightarrow> heap \<Rightarrow> addr \<Rightarrow> date \<Rightarrow> heap \<times> (error + flt)" where
  "prev_signal_heap bt h ga dt =
     (case master_index bt of
        [] \<Rightarrow> (h, Inl IndexError)
      | d0 # ds \<Rightarrow>
          if dt \<noteq> d0
          then (let (pa, h1) = alloc_frame h (shift_series (frames h ga))
                in (h1, at_loc (frames h1 pa) dt))
          else (h, Inr (Fin 0)))"

text \<open>A read that raises ends the computation and leaves the heap as it is.\<close>

definition bind_heap ::
  "heap \<Rightarrow> error + 'a \<Rightarrow> ('a \<Rightarrow> heap \<times> (error + 'b)) \<Rightarrow> heap \<times> (error + 'b)" where
  "bind_heap h m f = (case m of Inl e \<Rightarrow> (h, Inl e) | Inr x \<Rightarrow> f x)"

text \<open>The body of the inner loop, for the ticker \<open>t\<close> whose table is the object at \<open>fa\<close>.\<close>

definition step_ticker_heap ::
  "backtest \<Rightarrow> addr \<Rightarrow> date \<Rightarrow> heap \<times> sim_state \<Rightarrow> ticker \<times> addr \<Rightarrow> heap \<times> (error + sim_state)"
  where
  "step_ticker_heap bt sa dt hs tfa =
     (case (hs, tfa) of ((h, st), (t, fa)) \<Rightarrow>
      bind_heap h (at_loc (frames h fa) dt) (\<lambda>price.
      bind_heap h (lookup (dicts h sa) t) (\<lambda>ga.
      bind_heap h (at_loc (frames h ga) dt) (\<lambda>sig.
        (case prev_signal_heap bt h ga dt of
           (h1, r) \<Rightarrow>
             (h1,
              bind_err r (\<lambda>prev_sig.
              bind_err (case decide sig prev_sig (positions st t) of
                          Entry \<Rightarrow> enter bt dt t price st
                        | Exit \<Rightarrow> exit_position bt dt t price st
                        | Hold \<Rightarrow> Inr st) (\<lambda>st'.
                Inr (st'\<lparr>portfolio_value :=
                          fl_add (portfolio_value st') (fl_mul (shares st' t) price)\<rparr>)))))))))"

text \<open>A loop over a list whose body works on the heap and may raise.\<close>

fun fold_heap ::
  "(heap \<times> 's \<Rightarrow> 'a \<Rightarrow> heap \<times> (error + 's)) \<Rightarrow> heap \<times> 's \<Rightarrow> 'a list \<Rightarrow> heap \<times> (error + 's)"
  where
  "fold_heap f (h, s) [] = (h, Inr s)"
| "fold_heap f (h, s) (x # xs) =
     (case f (h, s) x of
        (h', Inl e) \<Rightarrow> (h', Inl e)
      | (h', Inr s') \<Rightarrow> fold_heap f (h', s') xs)"

text \<open>
  The body of the outer loop; \<open>ea\<close> is the address of the equity curve, whose row for \<open>dt\<close>
  is assigned at the end.
\<close>

definition step_date_heap ::
  "backtest \<Rightarrow> addr \<Rightarrow> addr \<Rightarrow> addr \<Rightarrow> heap \<times> sim_state \<Rightarrow> date \<Rightarrow> heap \<times> (error + sim_state)"
  where
  "step_date_heap bt da sa ea hs dt =
     (case hs of (h, st) \<Rightarrow>
        (case fold_heap (step_ticker_heap bt sa dt) (h, st\<lparr>portfolio_value := Fin 0\<rparr>)
                (dicts h da) of
           (h1, Inl e) \<Rightarrow> (h1, Inl e)
         | (h1, Inr st') \<Rightarrow>
             (h1\<lparr>frames := (frames h1)
                   (ea := AList.update dt (fl_add (portfolio_cash st') (portfolio_value st'))
                            (frames h1 ea))\<rparr>,
              Inr st')))"

text \<open>
  \<open>run\<close>: the equity curve is created over the master index with every value missing; the
  result is its address and the dict of the trade logs.
\<close>

definition run_heap ::
  "backtest \<Rightarrow> addr \<Rightarrow> addr \<Rightarrow> heap \<Rightarrow> heap \<times> (error + addr \<times> trade list dict)" where
  "run_heap bt da sa h =
     (let (ea, h0) = alloc_frame h (map (\<lambda>d. (d, NaN)) (master_index bt))
      in case fold_heap (step_date_heap bt da sa ea) (h0, initial_state bt) (master_index bt) of
           (h', Inl e) \<Rightarrow> (h', Inl e)
         | (h', Inr st) \<Rightarrow> (h', Inr (ea, map (\<lambda>(t, a). (t, trades st t)) (dicts h da))))"

text \<open>
  Constructing the simulator with the dict objects at \<open>da\<close> and \<open>sa\<close> and running it, as
  \<open>app.py\<close> does.
\<close>

definition backtest_run_heap ::
  "heap \<Rightarrow> addr \<Rightarrow> addr \<Rightarrow> flt dict option \<Rightarrow> flt \<Rightarrow> flt \<Rightarrow> flt \<Rightarrow>
     heap \<times> (error + addr \<times> trade list dict)" where
  "backtest_run_heap h da sa weights_arg capital slip comm =
     (let w = (case weights_arg of
                 None \<Rightarrow> default_weights (deref h da)
               | Some [] \<Rightarrow> default_weights (deref h da)
               | Some (x # xs) \<Rightarrow> x # xs);
          idx = union_index (deref h da)
      in case init_heap h da sa of
           (h1, Some e) \<Rightarrow> (h1, Inl e)
         | (h1, None) \<Rightarrow>
             run_heap \<lparr>data = deref h1 da, signals = deref h1 sa, weights = w,
                       initial_capital = capital, slippage = slip, commission = comm,
                       master_index = idx\<rparr> da sa h1)"

text \<open>
  From \<open>h\<close> to \<open>h'\<close> no dict has changed, nothing has been deallocated, and the objects
  below address \<open>n\<close> are as they were.
\<close>

definition unchanged_below :: "addr \<Rightarrow> heap \<Rightarrow> heap \<Rightarrow> bool" where
  "unchanged_below n h h' =
     (dicts h' = dicts h \<and> next_frame h \<le> next_frame h' \<and>
      (\<forall>x < n. frames h' x = frames h x))"

section \<open>Properties\<close>

subsection \<open>Signal generators\<close>

lemma fl_lt_irrefl: "\<not> fl_lt x x"
  by (cases x) simp_all

lemma cross_up_single: "cross_up [a] [b] = [False]"
  by (simp add: cross_up_def shift1_def fl_le_def fl_eq_def)

lemma cross_down_single: "cross_down [a] [b] = [False]"
  by (simp add: cross_down_def shift1_def fl_le_def fl_eq_def)

lemma short_table_cases: "length df < 2 \<Longrightarrow> df = [] \<or> (\<exists>r. df = [r])"
  by (cases df) (auto simp: less_Suc_eq_0_disj)

text \<open>
  C5, as stated: every generator is all flat on a table of fewer than two rows. The band
  mean-reversion generator compares the close with the lower band of the same row and needs
  no earlier row: on the single row \<open>row0\<close> it emits 1.
\<close>

theorem bollinger_single_row_counterexample:
  "length [row0] < 2 \<and> bollinger_signals [row0] = [Fin 1] \<and>
   \<not> all_flat (bollinger_signals [row0])"
  by (simp add: bollinger_signals_def bollinger_step_def row0_def all_flat_def)

text \<open>
  C5, amended: on a table of fewer than two rows the trend-crossover and the momentum-line
  generators are all flat (a crossover needs the row before); the band generator is flat on
  the empty table and emits, for a single row, 1 exactly when the close is below the lower
  band.
\<close>

theorem short_table_signals:
  assumes "length df < 2"
  shows "all_flat (ema_rsi_vol_signals df rsi_high vol_thresh) \<and>
         all_flat (macd_signals df) \<and>
         bollinger_signals df =
           map (\<lambda>r. if fl_lt (Close r) (bb_lower r) then Fin 1 else Fin 0) df"
proof -
  from assms consider "df = []" | r where "df = [r]"
    using short_table_cases by blast
  then show ?thesis
  proof cases
    case 1
    then show ?thesis
      by (simp add: all_flat_def ema_rsi_vol_signals_def macd_signals_def bollinger_signals_def
          cross_up_def cross_down_def shift1_def)
  next
    case 2
    then show ?thesis
      by (simp add: all_flat_def ema_rsi_vol_signals_def macd_signals_def bollinger_signals_def
          cross_up_single cross_down_single ema_rsi_vol_step_def macd_step_def
          bollinger_step_def)
  qed
qed

theorem short_table_signals_witness:
  "length [row0] < 2 \<and>
   all_flat (ema_rsi_vol_signals [row0] default_rsi_high default_vol_thresh) \<and>
   all_flat (macd_signals [row0]) \<and>
   bollinger_signals [row0] = [Fin 1]"
  using short_table_signals [of "[row0]" default_rsi_high default_vol_thresh]
  by (simp add: row0_def)

text \<open>
  C10, as stated: a position open at a date where the oscillator equals its threshold is held
  unless the crossover exit fires. In the third row of \<open>held_rows\<close> the oscillator is
  exactly 70 and there is no cross-down, yet the position opened in the second row is closed:
  the volatility, 0.7, is above its threshold.
\<close>

theorem threshold_hold_counterexample:
  "rsi (held_rows ! 2) = default_rsi_high \<and>
   cross_down (map ema_fast held_rows) (map ema_slow held_rows) ! 2 = False \<and>
   ema_rsi_vol_signals held_rows default_rsi_high default_vol_thresh = [Fin 0, Fin 1, Fin 0]"
  by (simp add: held_rows_def row0_def default_rsi_high_def default_vol_thresh_def
      ema_rsi_vol_signals_def cross_up_def cross_down_def shift1_def fl_le_def fl_eq_def
      ema_rsi_vol_step_def)

text \<open>
  C10, amended: at a date where the oscillator equals its threshold or the volatility equals
  its threshold, a flat position stays flat whatever the crossover, and an open position is
  closed exactly when the cross-down fires or the other filter, the one that is not at its
  threshold, is strictly above it; a filter at its threshold never closes the position.
\<close>

theorem threshold_equality_strict:
  assumes "rsi r = rsi_high \<or> vol r = vol_thresh"
  shows "ema_rsi_vol_step rsi_high vol_thresh 0 r cu cd = 0 \<and>
         ema_rsi_vol_step rsi_high vol_thresh 1 r cu cd =
           (if cd \<or> (rsi r \<noteq> rsi_high \<and> fl_lt rsi_high (rsi r))
                \<or> (vol r \<noteq> vol_thresh \<and> fl_lt vol_thresh (vol r))
            then 0 else 1)"
  using assms by (auto simp: ema_rsi_vol_step_def fl_lt_irrefl)

theorem threshold_equality_strict_witness:
  "rsi (held_rows ! 2) = default_rsi_high \<and>
   ema_rsi_vol_step default_rsi_high default_vol_thresh 0 (held_rows ! 2) True False = 0 \<and>
   ema_rsi_vol_step default_rsi_high default_vol_thresh 1 (held_rows ! 2) False False = 0 \<and>
   ema_rsi_vol_step default_rsi_high default_vol_thresh 1
     ((held_rows ! 1)\<lparr>rsi := Fin 70\<rparr>) False False = 1"
  using
    threshold_equality_strict
      [of "held_rows ! 2" default_rsi_high default_vol_thresh True False]
    threshold_equality_strict
      [of "held_rows ! 2" default_rsi_high default_vol_thresh False False]
    threshold_equality_strict
      [of "(held_rows ! 1)\<lparr>rsi := Fin 70\<rparr>" default_rsi_high default_vol_thresh False False]
  by (simp add: held_rows_def row0_def default_rsi_high_def default_vol_thresh_def)

subsection \<open>Portfolio simulator: concrete runs\<close>

lemmas run_eval =
  backtest_run_def init_def run_def run_state_def step_date_def step_ticker_def
  prev_signal_def enter_def exit_position_def decide_def initial_state_def
  bind_err_def lookup_def at_loc_def union_index_def reindex_ffill_def ffill_value_def
  fillna_def shift_series_def shift1_def default_weights_def fl_eq_def fl_sub_def Let_def

text \<open>
  C3: on the scenario (weight 1, capital 1000, no slippage, no commission) the simulator
  enters on day 1 at 105 with 1000/105 shares, exits on day 3 at 110, and records the equity
  sequence 1000, 1000, 1000 * (95/105), 1000 * (110/105), 1000 * (110/105).
\<close>

theorem scenario_single_instrument:
  "backtest_run scenario_prices scenario_signals (Some [(''A'', Fin 1)])
     (Fin 1000) (Fin 0) (Fin 0) =
     Inr ([(0, Fin 1000), (1, Fin 1000), (2, Fin (1000 * (95 / 105))),
           (3, Fin (1000 * (110 / 105))), (4, Fin (1000 * (110 / 105)))],
          [(''A'', [\<lparr>entry_time = 1, entry_price = Fin 105, trade_shares = Fin (1000 / 105),
                     exit_time = Some 3, exit_price = Some (Fin 110),
                     proceeds = Some (Fin (1000 * (110 / 105)))\<rparr>])])"
  by (simp add: scenario_prices_def scenario_signals_def run_eval)

text \<open>
  C1 says that an instrument without a price at a date adds nothing to that date's position
  value, so that the equity there is a number. The simulator has no such case: it marks the
  flat instrument with \<open>shares * price = 0 * NaN\<close>, which is NaN, and the equity of day 0
  is NaN although the cash is 1000 and nothing is held.
\<close>

theorem gap_equity_is_nan:
  "backtest_run gap_prices gap_signals None (Fin 1000) (Fin 0) (Fin 0) =
     Inr ([(0, NaN), (1, Fin 1000)], [(''A'', []), (''B'', [])])"
  by (simp add: gap_prices_def gap_signals_def run_eval)

subsection \<open>Metrics\<close>

lemma fl_div_NaN_right [simp]: "fl_div x NaN = NaN"
  by (cases x) simp_all

lemma fl_mul_NaN_right [simp]: "fl_mul x NaN = NaN"
  by (cases x) simp_all

lemma fl_add_NaN_right [simp]: "fl_add x NaN = NaN"
  by (cases x) simp_all

lemma fl_lt_NaN_right [simp]: "\<not> fl_lt x NaN"
  by (cases x) simp_all

lemma fl_std_Nil: "fl_std [] = NaN"
  by (simp add: fl_std_def dropna_def)

text \<open>
  C8 says that no degenerate input makes a statistic raise. On a curve with one observation
  the maximum drawdown is 0, which is the degenerate case of the Calmar ratio, but
  \<open>calmar_ratio\<close> calls \<open>cagr\<close> first, whose \<open>1 / years\<close> divides by zero.
\<close>

theorem calmar_single_observation_raises:
  "fl_maximum (drawdown (map snd single_point_curve)) = Fin 0 \<and>
   calmar_ratio single_point_curve = Inl ZeroDivisionError"
  by (simp add: single_point_curve_def calmar_ratio_def cagr_def bind_err_def drawdown_def
      cummax_def fl_maximum_def dropna_def fl_sub_def)

text \<open>
  The other degenerate cases do give NaN: a Sharpe ratio without positive volatility, a
  Sortino ratio without a negative return, a Calmar ratio without positive drawdown once
  \<open>cagr\<close> has returned, and an Omega ratio whose losses are zero.
\<close>

lemma sharpe_undefined:
  assumes "compute_metrics curve = Inr m" and "\<not> fl_lt (Fin 0) (annualized_vol m)"
  shows "sharpe m = NaN"
  using assms
  by (auto simp: compute_metrics_def Let_def split: list.splits if_splits)

lemma sortino_undefined:
  assumes "filter (\<lambda>r. fl_lt r (Fin 0)) (dropna (pct_change (map snd equity))) = []"
  shows "sortino_ratio equity risk_free = NaN"
  using assms by (simp add: sortino_ratio_def Let_def fl_std_Nil fl_eq_def)

lemma calmar_undefined:
  assumes "cagr equity = Inr c" and "\<not> fl_lt (Fin 0) (fl_maximum (drawdown (map snd equity)))"
  shows "calmar_ratio equity = Inr NaN"
  using assms by (simp add: calmar_ratio_def bind_err_def Let_def)

lemma omega_undefined:
  assumes "fl_neg (fl_sum (map (\<lambda>r. fl_sub r target)
             (filter (\<lambda>r. fl_lt r target) (dropna (pct_change (map snd equity)))))) = Fin 0"
  shows "omega_ratio equity target = NaN"
  using assms by (simp add: omega_ratio_def Let_def fl_eq_def)

text \<open>\<open>pct_change\<close> is the list of daily returns behind a leading NaN.\<close>

lemma pct_change_Cons: "pct_change (x # xs) = NaN # daily_returns (x # xs)"
  by (simp add: pct_change_def daily_returns_def shift1_def fl_sub_def)

text \<open>
  C7 says that the reported volatility is the standard deviation of the curve's daily
  percentage returns times the square root of 252. On \<open>growth_curve\<close> both daily returns
  are 10 percent, so their standard deviation is 0; \<open>compute_metrics\<close> puts a return of 0
  for the first date in front of them (\<open>fillna(0)\<close>) and reports the positive volatility
  \<open>sqrt (1/300) * sqrt 252\<close>.
\<close>

theorem annualized_vol_includes_first_day:
  "spec_annualized_vol growth_curve = Fin 0 \<and>
   \<not> isl (compute_metrics growth_curve) \<and>
   annualized_vol (projr (compute_metrics growth_curve)) = Fin (sqrt (1 / 300) * sqrt 252) \<and>
   annualized_vol (projr (compute_metrics growth_curve)) \<noteq> spec_annualized_vol growth_curve"
  by (simp add: growth_curve_def spec_annualized_vol_def daily_returns_def compute_metrics_def
      pct_change_def shift1_def fillna0_def fl_std_def fl_total_def dropna_def fl_sum_def
      fl_sub_def Let_def)

text \<open>
  What \<open>compute_metrics\<close> reports on any non-empty curve: the standard deviation is taken
  over a 0 for the first date followed by the daily returns.
\<close>

lemma compute_metrics_vol:
  assumes "curve \<noteq> []"
  shows "\<not> isl (compute_metrics curve) \<and>
         annualized_vol (projr (compute_metrics curve)) =
           fl_mul (fl_std (Fin 0 # fillna0 (daily_returns (map snd curve)))) (Fin (sqrt 252))"
proof -
  from assms obtain r rs where c: "curve = r # rs" by (cases curve) auto
  then show ?thesis
    by (simp add: compute_metrics_def Let_def pct_change_Cons fillna0_def)
qed

text \<open>An infinite return makes the standard deviation NaN.\<close>

lemma fl_std_infinite: "fl_std [Fin 0, PInf] = NaN"
  by (simp add: fl_std_def fl_total_def fl_sum_def dropna_def fl_sub_def Let_def)

text \<open>
  The scenario of the specification: on a constant curve all returns are 0, the volatility
  is 0 (NaN for a single observation), and the Sharpe ratio is NaN.
\<close>

lemma dropna_zeros: "dropna (replicate n (Fin 0)) = replicate n (Fin 0)"
  by (induction n) (simp_all add: dropna_def)

lemma foldl_add_zeros: "foldl fl_add (Fin 0) (replicate n (Fin 0)) = Fin 0"
  by (induction n) simp_all

lemma fl_sum_zeros: "fl_sum (replicate n (Fin 0)) = Fin 0"
  by (simp add: fl_sum_def dropna_zeros foldl_add_zeros)

lemma fl_std_zeros: "fl_std (replicate n (Fin 0)) = (if n < 2 then NaN else Fin 0)"
  by (simp add: fl_std_def fl_total_def dropna_zeros fl_sum_zeros foldl_add_zeros Let_def
      fl_sub_def)

lemma butlast_replicate_Suc: "butlast (replicate (Suc n) v) = replicate n v"
proof -
  have "replicate (Suc n) v = replicate n v @ [v]"
    by (simp add: replicate_append_same)
  then show ?thesis
    by (simp only: butlast_snoc)
qed

lemma constant_returns:
  "fillna0 (pct_change (replicate n v)) = replicate n (Fin 0)"
proof (cases n)
  case 0
  then show ?thesis by (simp add: pct_change_def fillna0_def shift1_def)
next
  case (Suc k)
  have "fl_sub (fl_div v v) (Fin 1) = Fin 0 \<or> fl_sub (fl_div v v) (Fin 1) = NaN"
    by (cases v) (simp_all add: fl_sub_def)
  then have z: "(if fl_sub (fl_div v v) (Fin 1) = NaN then Fin 0 else fl_sub (fl_div v v) (Fin 1)) = Fin 0"
    by auto
  have d: "daily_returns (replicate (Suc k) v) = replicate k (fl_sub (fl_div v v) (Fin 1))"
    unfolding daily_returns_def butlast_replicate_Suc
    by (simp add: zip_replicate)
  have "pct_change (replicate (Suc k) v) = NaN # replicate k (fl_sub (fl_div v v) (Fin 1))"
    using pct_change_Cons [of v "replicate k v"] d by simp
  then show ?thesis
    using z Suc by (simp add: fillna0_def)
qed

lemma constant_curve_sharpe:
  assumes "curve \<noteq> []" and "map snd curve = replicate (length curve) v"
  shows "\<not> isl (compute_metrics curve) \<and> sharpe (projr (compute_metrics curve)) = NaN"
proof -
  from assms(1) obtain r rs where c: "map snd curve = r # rs"
    by (cases curve) auto
  have "fillna0 (pct_change (map snd curve)) = replicate (length curve) (Fin 0)"
    using assms(2) constant_returns by metis
  then have "fl_std (fillna0 (pct_change (map snd curve))) = NaN \<or>
             fl_std (fillna0 (pct_change (map snd curve))) = Fin 0"
    by (simp add: fl_std_zeros)
  then have "\<not> fl_lt (Fin 0) (fl_mul (fl_std (fillna0 (pct_change (map snd curve)))) (Fin (sqrt 252)))"
    by auto
  then show ?thesis
    using c by (simp add: compute_metrics_def Let_def)
qed

subsection \<open>Portfolio simulator: entry and exit\<close>

lemma bind_err_simps [simp]: "bind_err (Inl e) f = Inl e" "bind_err (Inr x) f = f x"
  by (simp_all add: bind_err_def)

lemma bind_err_Inr_iff: "bind_err m f = Inr y \<longleftrightarrow> (\<exists>x. m = Inr x \<and> f x = Inr y)"
  by (cases m) simp_all

lemma exit_position_result:
  assumes "trades st t \<noteq> []"
  shows "exit_position bt dt t price st =
     Inr (st\<lparr>portfolio_cash := fl_add (portfolio_cash st)
                 (fl_sub (fl_mul (shares st t) (fl_mul price (fl_sub (Fin 1) (slippage bt))))
                    (commission bt)),
             trades := (trades st)(t := butlast (trades st t) @
               [(last (trades st t))\<lparr>exit_time := Some dt,
                  exit_price := Some (fl_mul price (fl_sub (Fin 1) (slippage bt))),
                  proceeds := Some (fl_sub (fl_mul (shares st t)
                     (fl_mul price (fl_sub (Fin 1) (slippage bt)))) (commission bt))\<rparr>]),
             shares := (shares st)(t := Fin 0),
             positions := (positions st)(t := 0)\<rparr>)"
  using assms by (cases "trades st t") (simp_all add: exit_position_def Let_def)

lemma enter_result:
  assumes "lookup (weights bt) t = Inr w"
  shows "enter bt dt t price st =
     Inr (st\<lparr>shares := (shares st)(t := fl_div (fl_mul (portfolio_cash st) w) price),
             portfolio_cash := fl_sub (portfolio_cash st)
               (fl_add (fl_mul (fl_mul (fl_div (fl_mul (portfolio_cash st) w) price) price)
                          (fl_add (Fin 1) (slippage bt))) (commission bt)),
             trades := (trades st)(t := trades st t @
               [\<lparr>entry_time = dt,
                 entry_price = fl_mul price (fl_add (Fin 1) (slippage bt)),
                 trade_shares = fl_div (fl_mul (portfolio_cash st) w) price,
                 exit_time = None, exit_price = None, proceeds = None\<rparr>]),
             positions := (positions st)(t := 1)\<rparr>)"
  using assms by (simp add: enter_def Let_def)

text \<open>
  What the exit block does to a state, and the round trip of an entry and an exit at one
  price without slippage and commission.
\<close>

lemma exit_and_round_trip_steps:
  "(trades st t \<noteq> [] \<longrightarrow>
      \<not> isl (exit_position bt dt t price st) \<and>
      exit_price (last (trades (projr (exit_position bt dt t price st)) t)) =
        Some (fl_mul price (fl_sub (Fin 1) (slippage bt))) \<and>
      proceeds (last (trades (projr (exit_position bt dt t price st)) t)) =
        Some (fl_sub (fl_mul (shares st t) (fl_mul price (fl_sub (Fin 1) (slippage bt))))
               (commission bt)) \<and>
      portfolio_cash (projr (exit_position bt dt t price st)) =
        fl_add (portfolio_cash st)
          (fl_sub (fl_mul (shares st t) (fl_mul price (fl_sub (Fin 1) (slippage bt))))
             (commission bt))) \<and>
   (portfolio_cash st = Fin c \<and> lookup (weights bt) t = Inr (Fin w) \<and> p \<noteq> 0 \<and>
    slippage bt = Fin 0 \<and> commission bt = Fin 0 \<longrightarrow>
      \<not> isl (bind_err (enter bt d1 t (Fin p) st) (exit_position bt d2 t (Fin p))) \<and>
      portfolio_cash (projr (bind_err (enter bt d1 t (Fin p) st) (exit_position bt d2 t (Fin p))))
        = portfolio_cash st)"
proof (intro conjI impI)
  assume ne: "trades st t \<noteq> []"
  note r = exit_position_result [OF ne, of bt dt price]
  show "\<not> isl (exit_position bt dt t price st)" by (simp add: r)
  show "exit_price (last (trades (projr (exit_position bt dt t price st)) t)) =
        Some (fl_mul price (fl_sub (Fin 1) (slippage bt)))" by (simp add: r)
  show "proceeds (last (trades (projr (exit_position bt dt t price st)) t)) =
        Some (fl_sub (fl_mul (shares st t) (fl_mul price (fl_sub (Fin 1) (slippage bt))))
               (commission bt))" by (simp add: r)
  show "portfolio_cash (projr (exit_position bt dt t price st)) =
        fl_add (portfolio_cash st)
          (fl_sub (fl_mul (shares st t) (fl_mul price (fl_sub (Fin 1) (slippage bt))))
             (commission bt))" by (simp add: r)
next
  assume h: "portfolio_cash st = Fin c \<and> lookup (weights bt) t = Inr (Fin w) \<and> p \<noteq> 0 \<and>
    slippage bt = Fin 0 \<and> commission bt = Fin 0"
  then have e: "enter bt d1 t (Fin p) st = Inr (st\<lparr>shares := (shares st)(t := Fin (c * w / p)),
             portfolio_cash := Fin (c - c * w),
             trades := (trades st)(t := trades st t @
               [\<lparr>entry_time = d1, entry_price = Fin p, trade_shares = Fin (c * w / p),
                 exit_time = None, exit_price = None, proceeds = None\<rparr>]),
             positions := (positions st)(t := 1)\<rparr>)"
    by (simp add: enter_result [of bt t "Fin w"] fl_sub_def)
  show "\<not> isl (bind_err (enter bt d1 t (Fin p) st) (exit_position bt d2 t (Fin p)))"
    by (simp add: e exit_position_result)
  show "portfolio_cash (projr (bind_err (enter bt d1 t (Fin p) st) (exit_position bt d2 t (Fin p))))
        = portfolio_cash st"
    using h by (simp add: e exit_position_result fl_sub_def)
qed


text \<open>
  Two entries on the same date: with equal weights and 1000 in cash the first instrument gets
  500 and the second one half of the remaining 500.
\<close>

lemma sequential_entries_share_cash:
  "backtest_run one_day_prices one_day_signals None (Fin 1000) (Fin 0) (Fin 0) =
     Inr ([(0, Fin 1000)],
          [(''A'', [\<lparr>entry_time = 0, entry_price = Fin 100, trade_shares = Fin 5,
                     exit_time = None, exit_price = None, proceeds = None\<rparr>]),
           (''B'', [\<lparr>entry_time = 0, entry_price = Fin 50, trade_shares = Fin 5,
                     exit_time = None, exit_price = None, proceeds = None\<rparr>])])"
  by (simp add: one_day_prices_def one_day_signals_def run_eval)

lemma decide_binary:
  assumes "binary sig" and "binary prev_sig"
    and "pos = (if prev_sig = Fin 1 then 1 else 0)"
  shows "decide sig prev_sig pos =
     (if sig = Fin 1 \<and> prev_sig = Fin 0 then Entry
      else if sig = Fin 0 \<and> prev_sig = Fin 1 then Exit else Hold)"
  using assms by (auto simp: decide_def binary_def fl_eq_def)

subsection \<open>Portfolio simulator: the trade log of a run\<close>

lemma log_before_mono: "log_before b ls \<Longrightarrow> b \<le> b' \<Longrightarrow> log_before b' ls"
  by (fastforce simp: log_before_def)

lemma ticker_inv_mono: "ticker_inv b st t \<Longrightarrow> b \<le> b' \<Longrightarrow> ticker_inv b' st t"
  by (auto simp: ticker_inv_def intro: log_before_mono)

lemma ticker_inv_cong:
  assumes "trades st' t = trades st t" "positions st' t = positions st t" "shares st' t = shares st t"
  shows "ticker_inv b st' t = ticker_inv b st t"
  using assms by (simp add: ticker_inv_def open_pos_def)

lemma step_ticker_Inr:
  assumes "step_ticker bt dt st (t, df) = Inr st'"
  obtains price sig prev_sig st1 where
    "(case decide sig prev_sig (positions st t) of
        Entry \<Rightarrow> enter bt dt t price st
      | Exit \<Rightarrow> exit_position bt dt t price st
      | Hold \<Rightarrow> Inr st) = Inr st1"
    and "st' = st1\<lparr>portfolio_value :=
                 fl_add (portfolio_value st1) (fl_mul (shares st1 t) price)\<rparr>"
  using assms by (auto simp: step_ticker_def bind_err_Inr_iff)

lemma decide_Exit: "decide sig prev_sig pos = Exit \<Longrightarrow> pos = 1"
  by (auto simp: decide_def split: if_splits)

lemma exit_position_Inr:
  assumes "exit_position bt dt t price st = Inr st1"
  obtains l r ep pr where "trades st t = l @ [r]"
    and "trades st1 = (trades st)(t := l @ [r\<lparr>exit_time := Some dt, exit_price := ep,
                                               proceeds := pr\<rparr>])"
    and "positions st1 = (positions st)(t := 0)"
    and "shares st1 = (shares st)(t := Fin 0)"
proof -
  from assms have ne: "trades st t \<noteq> []"
    by (auto simp: exit_position_def Let_def split: list.splits)
  then obtain l r where lr: "trades st t = l @ [r]"
    by (metis append_butlast_last_id)
  from assms show ?thesis
    unfolding exit_position_result [OF ne]
    by (intro that [of l r]) (auto simp: lr)
qed

lemma enter_Inr:
  assumes "enter bt dt t price st = Inr st1"
  obtains r where "trades st1 = (trades st)(t := trades st t @ [r])"
    and "entry_time r = dt" and "exit_time r = None" and "trade_shares r = shares st1 t"
    and "positions st1 = (positions st)(t := 1)"
    and "\<And>u. u \<noteq> t \<Longrightarrow> shares st1 u = shares st u"
  using assms by (auto simp: enter_def bind_err_Inr_iff Let_def)

lemma step_ticker_other:
  assumes "step_ticker bt dt st (t, df) = Inr st'" and "t' \<noteq> t"
  shows "trades st' t' = trades st t' \<and> positions st' t' = positions st t' \<and>
         shares st' t' = shares st t'"
proof -
  from assms(1) obtain price sig prev_sig st1 where
    d: "(case decide sig prev_sig (positions st t) of
           Entry \<Rightarrow> enter bt dt t price st
         | Exit \<Rightarrow> exit_position bt dt t price st
         | Hold \<Rightarrow> Inr st) = Inr st1"
    and st': "st' = st1\<lparr>portfolio_value :=
                 fl_add (portfolio_value st1) (fl_mul (shares st1 t) price)\<rparr>"
    by (rule step_ticker_Inr)
  show ?thesis
  proof (cases "decide sig prev_sig (positions st t)")
    case Entry
    with d have "enter bt dt t price st = Inr st1" by simp
    then show ?thesis using assms(2) st' by (elim enter_Inr) simp
  next
    case Exit
    with d have "exit_position bt dt t price st = Inr st1" by simp
    then show ?thesis using assms(2) st' by (elim exit_position_Inr) simp
  next
    case Hold
    with d st' show ?thesis by auto
  qed
qed

lemma step_ticker_event:
  assumes "step_ticker bt dt st (t, df) = Inr st'"
  shows "(trades st' t = trades st t \<and> positions st' t = positions st t \<and>
          shares st' t = shares st t)
       \<or> (\<exists>r. trades st' t = trades st t @ [r] \<and> entry_time r = dt \<and> exit_time r = None \<and>
              trade_shares r = shares st' t \<and> positions st' t = 1)
       \<or> (positions st t = 1 \<and> positions st' t = 0 \<and>
          (\<exists>l r ep pr. trades st t = l @ [r] \<and>
             trades st' t = l @ [r\<lparr>exit_time := Some dt, exit_price := ep, proceeds := pr\<rparr>]))"
proof -
  from assms obtain price sig prev_sig st1 where
    d: "(case decide sig prev_sig (positions st t) of
           Entry \<Rightarrow> enter bt dt t price st
         | Exit \<Rightarrow> exit_position bt dt t price st
         | Hold \<Rightarrow> Inr st) = Inr st1"
    and st': "st' = st1\<lparr>portfolio_value :=
                 fl_add (portfolio_value st1) (fl_mul (shares st1 t) price)\<rparr>"
    by (rule step_ticker_Inr)
  show ?thesis
  proof (cases "decide sig prev_sig (positions st t)")
    case Entry
    with d have "enter bt dt t price st = Inr st1" by simp
    then show ?thesis using st' by (elim enter_Inr) simp
  next
    case Exit
    then have pos: "positions st t = 1" by (rule decide_Exit)
    from Exit d have "exit_position bt dt t price st = Inr st1" by simp
    then show ?thesis using st' pos by (elim exit_position_Inr) auto
  next
    case Hold
    with d st' show ?thesis by auto
  qed
qed

lemma step_ticker_inv:
  assumes s: "step_ticker bt dt st (t, df) = Inr st'" and inv: "ticker_inv dt st t"
  shows "ticker_inv (dt + 1) st' t"
proof -
  from inv have wf: "log_wf (trades st t)" and bf: "log_before dt (trades st t)"
    and op: "open_pos st t"
    by (simp_all add: ticker_inv_def)
  from step_ticker_event [OF s] consider
    (hold) "trades st' t = trades st t" "positions st' t = positions st t"
      "shares st' t = shares st t"
  | (entry) r where "trades st' t = trades st t @ [r]" "entry_time r = dt"
      "exit_time r = None" "trade_shares r = shares st' t" "positions st' t = 1"
  | (exit) l r ep pr where "positions st t = 1" "positions st' t = 0"
      "trades st t = l @ [r]"
      "trades st' t = l @ [r\<lparr>exit_time := Some dt, exit_price := ep, proceeds := pr\<rparr>]"
    by blast
  then show ?thesis
  proof cases
    case hold
    then have "ticker_inv dt st' t = ticker_inv dt st t"
      by (rule ticker_inv_cong)
    with inv show ?thesis by (auto intro: ticker_inv_mono)
  next
    case entry
    have "log_wf (trades st' t)"
      using wf bf entry
      by (fastforce simp: log_wf_def log_before_def sorted_wrt_append)
    moreover have "log_before (dt + 1) (trades st' t)"
      using bf entry by (fastforce simp: log_before_def)
    moreover have "open_pos st' t"
      using entry by (simp add: open_pos_def)
    ultimately show ?thesis by (simp add: ticker_inv_def)
  next
    case exit
    have "log_wf (trades st' t)"
      using wf bf exit
      by (fastforce simp: log_wf_def log_before_def sorted_wrt_append)
    moreover have "log_before (dt + 1) (trades st' t)"
      using bf exit by (fastforce simp: log_before_def)
    moreover have "open_pos st' t"
      using exit by (simp add: open_pos_def)
    ultimately show ?thesis by (simp add: ticker_inv_def)
  qed
qed

lemma inner_loop_inv:
  assumes "fold_err (step_ticker bt dt) st xs = Inr st'" and "distinct (map fst xs)"
    and "\<forall>t. if t \<in> fst ` set xs then ticker_inv dt st t else ticker_inv (dt + 1) st t"
  shows "\<forall>t. ticker_inv (dt + 1) st' t"
  using assms
proof (induction xs arbitrary: st)
  case Nil
  then show ?case by simp
next
  case (Cons x xs)
  obtain t df where x: "x = (t, df)" by (cases x)
  from Cons.prems(1) obtain st1 where
    s1: "step_ticker bt dt st (t, df) = Inr st1" and
    rest: "fold_err (step_ticker bt dt) st1 xs = Inr st'"
    by (auto simp: x bind_err_Inr_iff)
  from Cons.prems(2) have t_notin: "t \<notin> fst ` set xs" and dist: "distinct (map fst xs)"
    by (auto simp: x)
  have "ticker_inv dt st t" using Cons.prems(3) by (simp add: x)
  then have t1: "ticker_inv (dt + 1) st1 t" by (rule step_ticker_inv [OF s1])
  have "\<forall>u. if u \<in> fst ` set xs then ticker_inv dt st1 u else ticker_inv (dt + 1) st1 u"
  proof
    fix u
    show "if u \<in> fst ` set xs then ticker_inv dt st1 u else ticker_inv (dt + 1) st1 u"
    proof (cases "u = t")
      case True
      with t1 t_notin show ?thesis by simp
    next
      case False
      from step_ticker_other [OF s1 False]
      have "\<And>b. ticker_inv b st1 u = ticker_inv b st u"
        by (intro ticker_inv_cong) simp_all
      with Cons.prems(3) False show ?thesis
        by (auto simp: x split: if_splits)
    qed
  qed
  from Cons.IH [OF rest dist this] show ?case .
qed

lemma step_date_inv:
  assumes s: "step_date bt st dt = Inr st'" and dist: "distinct (map fst (data bt))"
    and inv: "\<forall>t. ticker_inv dt st t"
  shows "\<forall>t. ticker_inv (dt + 1) st' t"
proof -
  let ?st0 = "st\<lparr>portfolio_value := Fin 0\<rparr>"
  from s obtain st1 where
    f: "fold_err (step_ticker bt dt) ?st0 (data bt) = Inr st1" and
    st': "st' = st1\<lparr>equity_curve := equity_curve st1 @
             [(dt, fl_add (portfolio_cash st1) (portfolio_value st1))]\<rparr>"
    by (auto simp: step_date_def bind_err_Inr_iff)
  have "\<And>t b. ticker_inv b ?st0 t = ticker_inv b st t"
    by (intro ticker_inv_cong) simp_all
  with inv have "\<forall>t. if t \<in> fst ` set (data bt) then ticker_inv dt ?st0 t
                     else ticker_inv (dt + 1) ?st0 t"
    by (auto intro: ticker_inv_mono)
  from inner_loop_inv [OF f dist this] have "\<forall>t. ticker_inv (dt + 1) st1 t" .
  moreover have "\<And>t b. ticker_inv b st' t = ticker_inv b st1 t"
    unfolding st' by (intro ticker_inv_cong) simp_all
  ultimately show ?thesis by simp
qed

lemma outer_loop_inv:
  assumes "fold_err (step_date bt) st ds = Inr st'" and "sorted_wrt (<) ds"
    and "distinct (map fst (data bt))"
    and "\<forall>t. log_wf (trades st t) \<and> open_pos st t \<and> (\<forall>d \<in> set ds. log_before d (trades st t))"
  shows "\<forall>t. log_wf (trades st' t) \<and> open_pos st' t"
  using assms
proof (induction ds arbitrary: st)
  case Nil
  then show ?case by simp
next
  case (Cons d ds)
  from Cons.prems(1) obtain st1 where
    s1: "step_date bt st d = Inr st1" and rest: "fold_err (step_date bt) st1 ds = Inr st'"
    by (auto simp: bind_err_Inr_iff)
  have "\<forall>t. ticker_inv d st t"
    using Cons.prems(4) by (simp add: ticker_inv_def)
  from step_date_inv [OF s1 Cons.prems(3) this] have i1: "\<forall>t. ticker_inv (d + 1) st1 t" .
  have "\<forall>t. log_wf (trades st1 t) \<and> open_pos st1 t \<and>
            (\<forall>d' \<in> set ds. log_before d' (trades st1 t))"
  proof (intro allI conjI ballI)
    fix t
    from i1 show "log_wf (trades st1 t)" "open_pos st1 t"
      by (simp_all add: ticker_inv_def)
    fix d' assume "d' \<in> set ds"
    with Cons.prems(2) have "d + 1 \<le> d'" by auto
    moreover from i1 have "log_before (d + 1) (trades st1 t)"
      by (simp add: ticker_inv_def)
    ultimately show "log_before d' (trades st1 t)" by (rule log_before_mono [rotated])
  qed
  moreover from Cons.prems(2) have "sorted_wrt (<) ds" by simp
  ultimately show ?case
    using Cons.IH [OF rest _ Cons.prems(3)] by blast
qed

lemma union_index_strict: "sorted_wrt (<) (union_index d)"
  by (simp add: union_index_def strict_sorted_iff)

lemma lookup_Inr_key: "lookup d k = Inr v \<Longrightarrow> k \<in> fst ` set d"
  by (auto simp: lookup_def split: option.splits dest: map_of_SomeD intro: rev_image_eqI)

lemma align_loop_keys:
  "align_loop idx ts (d, s) = Inr (d', s') \<Longrightarrow> map fst d' = map fst d"
proof (induction ts arbitrary: d s)
  case Nil
  then show ?case by simp
next
  case (Cons t ts)
  from Cons.prems obtain df sg where
    l: "lookup d t = Inr df" and
    r: "align_loop idx ts (AList.update t (reindex_ffill df idx) d,
          AList.update t (fillna (Fin 0) (reindex_ffill sg idx)) s) = Inr (d', s')"
    by (auto simp: bind_err_Inr_iff Let_def)
  from Cons.IH [OF r] lookup_Inr_key [OF l] show ?case
    by (simp add: update_keys)
qed

lemma init_facts:
  assumes "init data_dict signals_dict weights_arg capital slip comm = Inr bt"
  shows "map fst (data bt) = map fst data_dict" and "master_index bt = union_index data_dict"
  using assms
  by (auto simp: init_def Let_def bind_err_Inr_iff dest: align_loop_keys)

lemma run_state_inv:
  assumes "run_state bt = Inr st" and "sorted_wrt (<) (master_index bt)"
    and "distinct (map fst (data bt))"
  shows "log_wf (trades st t) \<and> open_pos st t"
proof -
  have "\<forall>t. log_wf (trades (initial_state bt) t) \<and> open_pos (initial_state bt) t \<and>
            (\<forall>d \<in> set (master_index bt). log_before d (trades (initial_state bt) t))"
    by (simp add: initial_state_def log_wf_def open_pos_def log_before_def)
  from outer_loop_inv [OF assms(1) [unfolded run_state_def] assms(2,3) this]
  show ?thesis by simp
qed

lemma fold_visits_fst: "\<exists>n. map fst (fold_visits f s xs) = take n xs"
proof (induction xs arbitrary: s)
  case Nil
  then show ?case by simp
next
  case (Cons x xs)
  show ?case
  proof (cases "f s x")
    case (Inl e)
    then have "map fst (fold_visits f s (x # xs)) = take (Suc 0) (x # xs)" by simp
    then show ?thesis by (rule exI)
  next
    case (Inr s1)
    from Cons.IH [of s1] obtain n where "map fst (fold_visits f s1 xs) = take n xs" ..
    with Inr have "map fst (fold_visits f s (x # xs)) = take (Suc n) (x # xs)" by simp
    then show ?thesis by (rule exI)
  qed
qed

lemma fold_visits_complete:
  "fold_err f s xs = Inr s' \<Longrightarrow> map fst (fold_visits f s xs) = xs"
  by (induction xs arbitrary: s) (auto simp: bind_err_Inr_iff)

lemma ticker_visits_keys:
  assumes "distinct (map fst (data bt))"
  shows "distinct (map visit_key (ticker_visits bt dt st))"
    and "fst ` set (map visit_key (ticker_visits bt dt st)) \<subseteq> {dt}"
proof -
  let ?vs = "fold_visits (step_ticker bt dt) (st\<lparr>portfolio_value := Fin 0\<rparr>) (data bt)"
  have k: "map visit_key (ticker_visits bt dt st) = map (Pair dt) (map fst (map fst ?vs))"
    by (simp add: ticker_visits_def visit_key_def case_prod_unfold comp_def)
  obtain n where "map fst ?vs = take n (data bt)"
    using fold_visits_fst [of "step_ticker bt dt" "st\<lparr>portfolio_value := Fin 0\<rparr>" "data bt"] ..
  then have "map fst (map fst ?vs) = take n (map fst (data bt))"
    by (simp only: take_map)
  with assms have "distinct (map fst (map fst ?vs))" by simp
  then show "distinct (map visit_key (ticker_visits bt dt st))"
    unfolding k by (simp only: distinct_map inj_on_def) auto
  show "fst ` set (map visit_key (ticker_visits bt dt st)) \<subseteq> {dt}"
    unfolding k by auto
qed

lemma date_visits_keys:
  assumes "sorted_wrt (<) ds" and "distinct (map fst (data bt))"
  shows "distinct (map visit_key (concat (map (\<lambda>(dt, st). ticker_visits bt dt st)
           (fold_visits (step_date bt) st ds)))) \<and>
         fst ` set (map visit_key (concat (map (\<lambda>(dt, st). ticker_visits bt dt st)
           (fold_visits (step_date bt) st ds)))) \<subseteq> set ds"
  using assms(1)
proof (induction ds arbitrary: st)
  case Nil
  then show ?case by simp
next
  case (Cons d ds)
  note here = ticker_visits_keys [OF assms(2), of d st]
  show ?case
  proof (cases "step_date bt st d")
    case (Inl e)
    with here show ?thesis by auto
  next
    case (Inr st1)
    from Cons.prems have s: "sorted_wrt (<) ds" and n: "d \<notin> set ds" by auto
    note rest = Cons.IH [OF s, of st1]
    let ?r = "map visit_key (concat (map (\<lambda>(dt, st). ticker_visits bt dt st)
           (fold_visits (step_date bt) st1 ds)))"
    have e: "map visit_key (concat (map (\<lambda>(dt, st). ticker_visits bt dt st)
           (fold_visits (step_date bt) st (d # ds)))) =
          map visit_key (ticker_visits bt d st) @ ?r"
      by (simp add: Inr)
    from here(2) rest n have "set (map visit_key (ticker_visits bt d st)) \<inter> set ?r = {}"
      by (auto simp del: set_map set_concat)
    with here(1) rest have "distinct (map visit_key (ticker_visits bt d st) @ ?r)"
      by (simp only: distinct_append)
    moreover have "fst ` set (map visit_key (ticker_visits bt d st) @ ?r) \<subseteq> set (d # ds)"
    proof -
      from here(2) have a: "fst ` set (map visit_key (ticker_visits bt d st)) \<subseteq> set (d # ds)"
        by (rule subset_trans) simp
      from rest [THEN conjunct2] have b: "fst ` set ?r \<subseteq> set (d # ds)"
        by (rule subset_trans) auto
      from a b show ?thesis
        by (simp only: set_append image_Un Un_subset_iff simp_thms)
    qed
    ultimately show ?thesis by (simp only: e)
  qed
qed

lemma inner_pre_step:
  assumes s1: "step_ticker bt dt st (t, df) = Inr st1" and t_notin: "t \<notin> fst ` set xs"
    and pre: "\<forall>u. if u \<in> fst ` set ((t, df) # xs) then ticker_inv dt st u
                   else ticker_inv (dt + 1) st u"
  shows "\<forall>u. if u \<in> fst ` set xs then ticker_inv dt st1 u else ticker_inv (dt + 1) st1 u"
proof
  fix u
  have "ticker_inv dt st t" using pre by simp
  then have t1: "ticker_inv (dt + 1) st1 t" by (rule step_ticker_inv [OF s1])
  show "if u \<in> fst ` set xs then ticker_inv dt st1 u else ticker_inv (dt + 1) st1 u"
  proof (cases "u = t")
    case True
    with t1 t_notin show ?thesis by simp
  next
    case False
    from step_ticker_other [OF s1 False]
    have "\<And>b. ticker_inv b st1 u = ticker_inv b st u"
      by (intro ticker_inv_cong) simp_all
    with pre False show ?thesis
      by (auto split: if_splits)
  qed
qed

lemma inner_visits_inv:
  assumes "((t, df), s1) \<in> set (fold_visits (step_ticker bt dt) st xs)"
    and "distinct (map fst xs)"
    and "\<forall>u. if u \<in> fst ` set xs then ticker_inv dt st u else ticker_inv (dt + 1) st u"
  shows "ticker_inv dt s1 t"
  using assms
proof (induction xs arbitrary: st)
  case Nil
  then show ?case by simp
next
  case (Cons x xs)
  obtain u dfu where x: "x = (u, dfu)" by (cases x)
  from Cons.prems(2) have u_notin: "u \<notin> fst ` set xs" and dist: "distinct (map fst xs)"
    by (auto simp: x)
  from Cons.prems(1) consider
    (here) "t = u" "s1 = st"
  | (later) st1 where "step_ticker bt dt st (u, dfu) = Inr st1"
      "((t, df), s1) \<in> set (fold_visits (step_ticker bt dt) st1 xs)"
    by (cases "step_ticker bt dt st (u, dfu)") (auto simp: x)
  then show ?case
  proof cases
    case here
    with Cons.prems(3) show ?thesis by (simp add: x)
  next
    case later
    from inner_pre_step [OF later(1) u_notin Cons.prems(3) [unfolded x]]
    show ?thesis by (rule Cons.IH [OF later(2) dist])
  qed
qed

lemma outer_pre_step:
  assumes s1: "step_date bt st d = Inr st1" and srt: "sorted_wrt (<) (d # ds)"
    and dist: "distinct (map fst (data bt))"
    and pre: "\<forall>t. log_wf (trades st t) \<and> open_pos st t \<and>
                   (\<forall>d' \<in> set (d # ds). log_before d' (trades st t))"
  shows "\<forall>t. log_wf (trades st1 t) \<and> open_pos st1 t \<and>
              (\<forall>d' \<in> set ds. log_before d' (trades st1 t))"
proof -
  have "\<forall>t. ticker_inv d st t"
    using pre by (simp add: ticker_inv_def)
  from step_date_inv [OF s1 dist this] have i1: "\<forall>t. ticker_inv (d + 1) st1 t" .
  show ?thesis
  proof (intro allI conjI ballI)
    fix t
    from i1 show "log_wf (trades st1 t)" "open_pos st1 t"
      by (simp_all add: ticker_inv_def)
    fix d' assume "d' \<in> set ds"
    with srt have "d + 1 \<le> d'" by auto
    moreover from i1 have "log_before (d + 1) (trades st1 t)"
      by (simp add: ticker_inv_def)
    ultimately show "log_before d' (trades st1 t)" by (rule log_before_mono [rotated])
  qed
qed

lemma outer_visits_inv:
  assumes "(d, s) \<in> set (fold_visits (step_date bt) st ds)" and "sorted_wrt (<) ds"
    and "distinct (map fst (data bt))"
    and "\<forall>t. log_wf (trades st t) \<and> open_pos st t \<and> (\<forall>d \<in> set ds. log_before d (trades st t))"
  shows "ticker_inv d s t"
  using assms
proof (induction ds arbitrary: st)
  case Nil
  then show ?case by simp
next
  case (Cons d0 ds)
  from Cons.prems(1) consider
    (here) "d = d0" "s = st"
  | (later) st1 where "step_date bt st d0 = Inr st1"
      "(d, s) \<in> set (fold_visits (step_date bt) st1 ds)"
    by (cases "step_date bt st d0") auto
  then show ?case
  proof cases
    case here
    with Cons.prems(4) show ?thesis by (simp add: ticker_inv_def)
  next
    case later
    from Cons.prems(2) have srt: "sorted_wrt (<) ds" by simp
    from outer_pre_step [OF later(1) Cons.prems(2,3,4)]
    show ?thesis by (rule Cons.IH [OF later(2) srt Cons.prems(3)])
  qed
qed

lemma run_visits_inv:
  assumes v: "(dt, t, df, s) \<in> set (run_visits bt)" and srt: "sorted_wrt (<) (master_index bt)"
    and dist: "distinct (map fst (data bt))"
  shows "ticker_inv dt s t"
proof -
  from v obtain d st where
    o: "(d, st) \<in> set (fold_visits (step_date bt) (initial_state bt) (master_index bt))" and
    i: "(dt, t, df, s) \<in> set (ticker_visits bt d st)"
    by (auto simp: run_visits_def)
  from i have d: "d = dt" and
    i': "((t, df), s) \<in> set (fold_visits (step_ticker bt dt) (st\<lparr>portfolio_value := Fin 0\<rparr>)
            (data bt))"
    by (auto simp: ticker_visits_def)
  have "\<forall>t. log_wf (trades (initial_state bt) t) \<and> open_pos (initial_state bt) t \<and>
            (\<forall>d \<in> set (master_index bt). log_before d (trades (initial_state bt) t))"
    by (simp add: initial_state_def log_wf_def open_pos_def log_before_def)
  from outer_visits_inv [OF o srt dist this] have inv: "\<And>u. ticker_inv dt st u"
    by (simp add: d)
  have "\<And>u b. ticker_inv b (st\<lparr>portfolio_value := Fin 0\<rparr>) u = ticker_inv b st u"
    by (intro ticker_inv_cong) simp_all
  moreover have "\<And>u. ticker_inv (dt + 1) st u"
    using inv by (rule ticker_inv_mono) simp
  ultimately have "\<forall>u. if u \<in> fst ` set (data bt)
                     then ticker_inv dt (st\<lparr>portfolio_value := Fin 0\<rparr>) u
                     else ticker_inv (dt + 1) (st\<lparr>portfolio_value := Fin 0\<rparr>) u"
    using inv by simp
  from inner_visits_inv [OF i' dist this] show ?thesis .
qed

text \<open>
  C4: in a run of a simulator that the constructor has built from dicts with distinct
  tickers, the loop body is entered at most once for each date and instrument, and each time
  it takes one branch, so an entry and an exit never occur for one instrument on one date.
  Whenever the body takes the exit branch, the position flag of the instrument is 1 and the
  last record of its log is an entry of a strictly earlier date that has not been exited.
  In the trade log that the run returns for an instrument, no date is both an entry date and
  an exit date, every exit is strictly after the entry of the record it closes, and the
  entries are at strictly increasing dates.
\<close>

theorem entry_exit_exclusive:
  assumes "init data_dict signals_dict weights_arg capital slip comm = Inr bt"
    and "distinct (map fst data_dict)"
  shows "distinct (map visit_key (run_visits bt)) \<and>
         (\<forall>(dt, t, df, st) \<in> set (run_visits bt). \<forall>price sg sig prev_sig.
            at_loc df dt = Inr price \<and> lookup (signals bt) t = Inr sg \<and>
            at_loc sg dt = Inr sig \<and> prev_signal bt sg dt = Inr prev_sig \<and>
            decide sig prev_sig (positions st t) = Exit \<longrightarrow>
              positions st t = 1 \<and> trades st t \<noteq> [] \<and>
              exit_time (last (trades st t)) = None \<and>
              entry_time (last (trades st t)) < dt) \<and>
         (\<forall>equity logs t ls. run bt = Inr (equity, logs) \<and> (t, ls) \<in> set logs \<longrightarrow>
            (\<forall>r \<in> set ls. \<forall>r' \<in> set ls. exit_time r' \<noteq> Some (entry_time r)) \<and>
            (\<forall>r \<in> set ls. \<forall>x. exit_time r = Some x \<longrightarrow> entry_time r < x) \<and>
            sorted_wrt (\<lambda>r r'. entry_time r < entry_time r') ls)"
proof (intro conjI)
  from init_facts [OF assms(1)] assms(2) have dist: "distinct (map fst (data bt))"
    and srt: "sorted_wrt (<) (master_index bt)"
    by (simp_all add: union_index_strict)
  from date_visits_keys [OF srt dist, of "initial_state bt", THEN conjunct1]
  show "distinct (map visit_key (run_visits bt))"
    by (simp only: run_visits_def)
  show "\<forall>(dt, t, df, st) \<in> set (run_visits bt). \<forall>price sg sig prev_sig.
            at_loc df dt = Inr price \<and> lookup (signals bt) t = Inr sg \<and>
            at_loc sg dt = Inr sig \<and> prev_signal bt sg dt = Inr prev_sig \<and>
            decide sig prev_sig (positions st t) = Exit \<longrightarrow>
              positions st t = 1 \<and> trades st t \<noteq> [] \<and>
              exit_time (last (trades st t)) = None \<and>
              entry_time (last (trades st t)) < dt"
  proof (intro ballI, clarify)
    fix dt t df st price sg sig prev_sig
    assume v: "(dt, t, df, st) \<in> set (run_visits bt)"
      and e: "decide sig prev_sig (positions st t) = Exit"
    from e have pos: "positions st t = 1" by (rule decide_Exit)
    from run_visits_inv [OF v srt dist] have "open_pos st t" "log_before dt (trades st t)"
      by (simp_all add: ticker_inv_def)
    with pos show "positions st t = 1 \<and> trades st t \<noteq> [] \<and>
              exit_time (last (trades st t)) = None \<and>
              entry_time (last (trades st t)) < dt"
      by (simp add: open_pos_def log_before_def)
  qed
  show "\<forall>equity logs t ls. run bt = Inr (equity, logs) \<and> (t, ls) \<in> set logs \<longrightarrow>
            (\<forall>r \<in> set ls. \<forall>r' \<in> set ls. exit_time r' \<noteq> Some (entry_time r)) \<and>
            (\<forall>r \<in> set ls. \<forall>x. exit_time r = Some x \<longrightarrow> entry_time r < x) \<and>
            sorted_wrt (\<lambda>r r'. entry_time r < entry_time r') ls"
  proof (intro allI impI)
    fix equity logs t ls
    assume h: "run bt = Inr (equity, logs) \<and> (t, ls) \<in> set logs"
    then obtain st where
      r: "run_state bt = Inr st" and
      l: "logs = map (\<lambda>(t, df). (t, trades st t)) (data bt)"
      by (auto simp: run_def bind_err_Inr_iff)
    from h l have ls: "ls = trades st t" by auto
    from run_state_inv [OF r srt dist] have "log_wf ls"
      by (simp add: ls)
    then show "(\<forall>r \<in> set ls. \<forall>r' \<in> set ls. exit_time r' \<noteq> Some (entry_time r)) \<and>
            (\<forall>r \<in> set ls. \<forall>x. exit_time r = Some x \<longrightarrow> entry_time r < x) \<and>
            sorted_wrt (\<lambda>r r'. entry_time r < entry_time r') ls"
      by (simp add: log_wf_def)
  qed
qed

theorem entry_exit_exclusive_witness:
  "init (data demo_bt) (signals demo_bt) (Some (weights demo_bt)) (Fin 1000) (Fin 0) (Fin 0)
     = Inr demo_bt \<and>
   distinct (map fst (data demo_bt)) \<and>
   run_visits demo_bt =
     [(0, ''A'', [(0, Fin 100), (1, Fin 100)], initial_state demo_bt),
      (1, ''A'', [(0, Fin 100), (1, Fin 100)], demo_open_state)] \<and>
   distinct [(0::int, ''A''), (1, ''A'')] \<and>
   at_loc [(0, Fin 100), (1, Fin 100)] 1 = Inr (Fin 100) \<and>
   lookup (signals demo_bt) ''A'' = Inr [(0, Fin 1), (1, Fin 0)] \<and>
   at_loc [(0, Fin 1), (1, Fin 0)] 1 = Inr (Fin 0) \<and>
   prev_signal demo_bt [(0, Fin 1), (1, Fin 0)] 1 = Inr (Fin 1) \<and>
   decide (Fin 0) (Fin 1) (positions demo_open_state ''A'') = Exit \<and>
   positions demo_open_state ''A'' = 1 \<and>
   exit_time (last (trades demo_open_state ''A'')) = None \<and>
   entry_time (last (trades demo_open_state ''A'')) = 0 \<and>
   run demo_bt = Inr ([(0, Fin 1000), (1, Fin 1000)], [(''A'', round_trip_log)]) \<and>
   exit_time (hd round_trip_log) = Some 1 \<and> entry_time (hd round_trip_log) < 1"
proof -
  have i: "init (data demo_bt) (signals demo_bt) (Some (weights demo_bt)) (Fin 1000) (Fin 0)
             (Fin 0) = Inr demo_bt"
    by (simp add: demo_bt_def run_eval)
  have d: "distinct (map fst (data demo_bt))" by (simp add: demo_bt_def)
  have v: "run_visits demo_bt =
     [(0, ''A'', [(0, Fin 100), (1, Fin 100)], initial_state demo_bt),
      (1, ''A'', [(0, Fin 100), (1, Fin 100)], demo_open_state)]"
    by (simp add: run_visits_def ticker_visits_def demo_open_state_def demo_bt_def run_eval)
  have r: "run demo_bt = Inr ([(0, Fin 1000), (1, Fin 1000)], [(''A'', round_trip_log)])"
    by (simp add: demo_bt_def round_trip_log_def run_eval)
  have reads: "at_loc [(0, Fin 100), (1, Fin 100)] 1 = Inr (Fin 100)"
    "lookup (signals demo_bt) ''A'' = Inr [(0, Fin 1), (1, Fin 0)]"
    "at_loc [(0, Fin 1), (1, Fin 0)] 1 = Inr (Fin 0)"
    "prev_signal demo_bt [(0, Fin 1), (1, Fin 0)] 1 = Inr (Fin 1)"
    "decide (Fin 0) (Fin 1) (positions demo_open_state ''A'') = Exit"
    by (simp_all add: demo_bt_def demo_open_state_def run_eval)
  note th = entry_exit_exclusive [OF i d]
  from th [THEN conjunct1] have k: "distinct [(0::int, ''A''), (1, ''A'')]"
    by (simp add: v visit_key_def)
  have m: "(1, ''A'', [(0, Fin 100), (1, Fin 100)], demo_open_state) \<in> set (run_visits demo_bt)"
    by (simp add: v)
  from th [THEN conjunct2, THEN conjunct1, rule_format, OF m, simplified prod.case,
      rule_format, of "Fin 100" "[(0, Fin 1), (1, Fin 0)]" "Fin 0" "Fin 1"] reads
  have e: "positions demo_open_state ''A'' = 1 \<and> trades demo_open_state ''A'' \<noteq> [] \<and>
       exit_time (last (trades demo_open_state ''A'')) = None \<and>
       entry_time (last (trades demo_open_state ''A'')) < 1"
    by (simp only: simp_thms)
  have e0: "entry_time (last (trades demo_open_state ''A'')) = 0"
    by (simp add: demo_open_state_def)
  have m2: "(''A'', round_trip_log) \<in> set [(''A'', round_trip_log)]" by simp
  note l = th [THEN conjunct2, THEN conjunct2, rule_format,
      of "[(0, Fin 1000), (1, Fin 1000)]" "[(''A'', round_trip_log)]" "''A''" round_trip_log,
      OF conjI [OF r m2], THEN conjunct2, THEN conjunct1]
  have h: "hd round_trip_log \<in> set round_trip_log" "exit_time (hd round_trip_log) = Some 1"
    by (simp_all add: round_trip_log_def)
  from l h have "entry_time (hd round_trip_log) < 1" by blast
  with i d v k reads e e0 r h show ?thesis by (simp only: simp_thms)
qed

subsection \<open>The constructor and the caller's dicts\<close>

lemmas heap_eval =
  init_heap_def deref_def union_index_def lookup_def alloc_frame_def dict_set_def
  reindex_ffill_def ffill_value_def fillna_def

text \<open>
  C9, as stated: after construction each of the caller's mappings still contains, for every
  instrument, the same object with the same contents. In \<open>two_ticker_heap\<close> the
  caller's \<open>data_dict\<close> maps \<open>B\<close> to the table at address 1; after \<open>__init__\<close> it
  maps \<open>B\<close> to a new object, at address 6, which has a row for day 0 that the table
  never had.
\<close>

theorem init_replaces_dict_entries_counterexample:
  "snd (init_heap two_ticker_heap 0 1) = None \<and>
   lookup (dicts two_ticker_heap 0) ''B'' = Inr 1 \<and>
   frames two_ticker_heap 1 = [(1, Fin 50)] \<and>
   lookup (dicts (fst (init_heap two_ticker_heap 0 1)) 0) ''B'' = Inr 6 \<and>
   frames (fst (init_heap two_ticker_heap 0 1)) 6 = [(0, NaN), (1, Fin 50)]"
  by (simp add: two_ticker_heap_def heap_eval)
lemma lookup_Inr_iff: "lookup d k = Inr v \<longleftrightarrow> map_of d k = Some v"
  by (simp add: lookup_def split: option.splits)

lemma lookup_update: "lookup (AList.update k v d) k' = (if k' = k then Inr v else lookup d k')"
  by (simp add: lookup_def update_conv')
lemma align_heap_Cons_None:
  assumes "align_heap idx da sa (t # ts) h = (h', None)" and "da \<noteq> sa"
    and "\<forall>a. lookup (dicts h sa) t = Inr a \<longrightarrow> a < next_frame h"
  obtains fa ga where "lookup (dicts h da) t = Inr fa" and "lookup (dicts h sa) t = Inr ga"
    and "align_heap idx da sa ts (align_one idx da sa t fa ga h) = (h', None)"
proof -
  from assms(1) obtain fa where fa: "lookup (dicts h da) t = Inr fa"
    by (cases "lookup (dicts h da) t") auto
  from assms(1,2) fa obtain ga where ga: "lookup (dicts h sa) t = Inr ga"
    by (cases "lookup (dicts h sa) t") (auto simp: alloc_frame_def dict_set_def Let_def)
  with assms(3) have "ga < next_frame h" by simp
  then have "align_heap idx da sa (t # ts) h =
             align_heap idx da sa ts (align_one idx da sa t fa ga h)"
    using fa ga assms(2)
    by (simp add: alloc_frame_def dict_set_def Let_def align_one_def fun_upd_twist)
  with assms(1) fa ga show ?thesis by (intro that [of fa ga]) simp_all
qed


lemma align_heap_frames:
  "align_heap idx da sa ts h = (h', r) \<Longrightarrow>
     next_frame h \<le> next_frame h' \<and> (\<forall>x < next_frame h. frames h' x = frames h x)"
proof (induction ts arbitrary: h)
  case Nil
  then show ?case by simp
next
  case (Cons t ts)
  show ?case
  proof (cases "lookup (dicts h da) t")
    case (Inl e)
    with Cons.prems show ?thesis by simp
  next
    case (Inr fa)
    let ?h2 = "dict_set (snd (alloc_frame h (reindex_ffill (frames h fa) idx))) da t
                 (next_frame h)"
    have h2: "next_frame ?h2 = Suc (next_frame h)"
      "\<forall>x < next_frame h. frames ?h2 x = frames h x"
      by (simp_all add: alloc_frame_def dict_set_def)
    show ?thesis
    proof (cases "lookup (dicts ?h2 sa) t")
      case (Inl e)
      with Cons.prems Inr h2 show ?thesis
        by (auto simp: alloc_frame_def Let_def)
    next
      case ga: (Inr ga)
      let ?h4 = "dict_set (snd (alloc_frame ?h2
                   (fillna (Fin 0) (reindex_ffill (frames ?h2 ga) idx)))) sa t (next_frame ?h2)"
      have h4: "next_frame ?h4 = Suc (Suc (next_frame h))"
        "\<forall>x < next_frame h. frames ?h4 x = frames h x"
        by (simp_all add: alloc_frame_def dict_set_def)
      from Cons.prems Inr ga have "align_heap idx da sa ts ?h4 = (h', r)"
        by (simp add: alloc_frame_def Let_def)
      from Cons.IH [OF this] h4 show ?thesis by auto
    qed
  qed
qed


lemma align_one_facts:
  assumes "da \<noteq> sa"
  shows "next_frame (align_one idx da sa t fa ga h) = Suc (Suc (next_frame h))"
    and "lookup (dicts (align_one idx da sa t fa ga h) da) u =
           (if u = t then Inr (next_frame h) else lookup (dicts h da) u)"
    and "lookup (dicts (align_one idx da sa t fa ga h) sa) u =
           (if u = t then Inr (Suc (next_frame h)) else lookup (dicts h sa) u)"
    and "x < next_frame h \<Longrightarrow> frames (align_one idx da sa t fa ga h) x = frames h x"
    and "frames (align_one idx da sa t fa ga h) (next_frame h) = reindex_ffill (frames h fa) idx"
    and "frames (align_one idx da sa t fa ga h) (Suc (next_frame h)) =
           fillna (Fin 0) (reindex_ffill (frames h ga) idx)"
  using assms by (simp_all add: align_one_def lookup_update)
lemma align_heap_dicts:
  assumes "align_heap idx da sa ts h = (h', None)" and "da \<noteq> sa" and "distinct ts"
    and "\<forall>t \<in> set ts. \<forall>a. lookup (dicts h da) t = Inr a \<longrightarrow> a < next_frame h"
    and "\<forall>t \<in> set ts. \<forall>a. lookup (dicts h sa) t = Inr a \<longrightarrow> a < next_frame h"
  shows "(\<forall>t. t \<notin> set ts \<longrightarrow> lookup (dicts h' da) t = lookup (dicts h da) t \<and>
                             lookup (dicts h' sa) t = lookup (dicts h sa) t) \<and>
         (\<forall>t \<in> set ts. realigned idx da sa h h' t)"
  using assms
proof (induction ts arbitrary: h)
  case Nil
  then show ?case by simp
next
  case (Cons t ts)
  from Cons.prems(5) have "\<forall>a. lookup (dicts h sa) t = Inr a \<longrightarrow> a < next_frame h"
    by simp
  from align_heap_Cons_None [OF Cons.prems(1,2) this] obtain fa ga where
    fa: "lookup (dicts h da) t = Inr fa" and ga: "lookup (dicts h sa) t = Inr ga" and
    rest: "align_heap idx da sa ts (align_one idx da sa t fa ga h) = (h', None)"
    by blast
  let ?h4 = "align_one idx da sa t fa ga h"
  note f4 = align_one_facts [OF Cons.prems(2)]
  from Cons.prems(3) have t_notin: "t \<notin> set ts" and dist: "distinct ts" by simp_all
  from fa ga Cons.prems(4,5) have lt: "fa < next_frame h" "ga < next_frame h" by simp_all
  have p4: "\<forall>u \<in> set ts. \<forall>a. lookup (dicts ?h4 da) u = Inr a \<longrightarrow> a < next_frame ?h4"
    using Cons.prems(4) t_notin by (auto simp: f4)
  have p5: "\<forall>u \<in> set ts. \<forall>a. lookup (dicts ?h4 sa) u = Inr a \<longrightarrow> a < next_frame ?h4"
    using Cons.prems(5) t_notin by (auto simp: f4)
  from Cons.IH [OF rest Cons.prems(2) dist p4 p5] have
    other: "\<And>u. u \<notin> set ts \<Longrightarrow> lookup (dicts h' da) u = lookup (dicts ?h4 da) u \<and>
                                  lookup (dicts h' sa) u = lookup (dicts ?h4 sa) u" and
    done_ts: "\<And>u. u \<in> set ts \<Longrightarrow> realigned idx da sa ?h4 h' u"
    by blast+
  from align_heap_frames [OF rest] have
    keep: "\<And>x. x < Suc (Suc (next_frame h)) \<Longrightarrow> frames h' x = frames ?h4 x"
    by (simp add: f4)
  have "realigned idx da sa h h' t"
    unfolding realigned_def
    using fa ga other [OF t_notin] keep [of "next_frame h"] keep [of "Suc (next_frame h)"]
    by (simp add: f4)
  moreover have "realigned idx da sa h h' u" if "u \<in> set ts" for u
  proof -
    from that t_notin have ne: "u \<noteq> t" by auto
    from done_ts [OF that] obtain a a' g g' where
      r: "lookup (dicts ?h4 da) u = Inr a" "lookup (dicts h' da) u = Inr a'"
         "next_frame ?h4 \<le> a'" "frames h' a' = reindex_ffill (frames ?h4 a) idx"
         "lookup (dicts ?h4 sa) u = Inr g" "lookup (dicts h' sa) u = Inr g'"
         "next_frame ?h4 \<le> g'" "frames h' g' = fillna (Fin 0) (reindex_ffill (frames ?h4 g) idx)"
      unfolding realigned_def by blast
    from r(1,5) ne have a: "lookup (dicts h da) u = Inr a" and g: "lookup (dicts h sa) u = Inr g"
      by (simp_all add: f4)
    with Cons.prems(4,5) that have "a < next_frame h" "g < next_frame h" by auto
    then have "frames ?h4 a = frames h a" "frames ?h4 g = frames h g"
      by (simp_all add: f4)
    with r a g show ?thesis
      unfolding realigned_def by (auto simp: f4)
  qed
  moreover have "lookup (dicts h' da) u = lookup (dicts h da) u \<and>
                 lookup (dicts h' sa) u = lookup (dicts h sa) u" if "u \<notin> set (t # ts)" for u
    using that other [of u] by (simp add: f4)
  ultimately show ?case by auto
qed


lemma dict_allocated_lookup:
  "dict_allocated h d \<Longrightarrow> lookup (dicts h d) t = Inr a \<Longrightarrow> a < next_frame h"
  by (auto simp: dict_allocated_def lookup_Inr_iff list_all_iff dest: map_of_SomeD)

lemma lookup_keys_iff: "(\<exists>a. lookup d t = Inr a) \<longleftrightarrow> t \<in> set (map fst d)"
proof -
  have "(\<exists>a. lookup d t = Inr a) \<longleftrightarrow> map_of d t \<noteq> None"
    by (simp add: lookup_Inr_iff)
  then show ?thesis
    by (simp add: map_of_eq_None_iff)
qed

text \<open>
  A construction that succeeds on two different dict objects modifies none of
  the table and series objects that existed before, but it assigns into both of the caller's
  dicts: for every ticker of the data dict, the data dict afterwards holds a newly allocated
  table, the old one reindexed on the master calendar with forward fill, and the signals
  dict holds a newly allocated series, the old one reindexed in the same way with its gaps
  set to 0.
\<close>

lemma init_rebinds_dicts:
  assumes "init_heap h da sa = (h', None)" and "da \<noteq> sa"
    and "distinct (map fst (dicts h da))"
    and "dict_allocated h da" and "dict_allocated h sa"
    and "lookup (dicts h da) t = Inr a"
  shows "(\<forall>x < next_frame h. frames h' x = frames h x) \<and>
         a < next_frame h \<and>
         \<not> isl (lookup (dicts h' da) t) \<and>
         next_frame h \<le> projr (lookup (dicts h' da) t) \<and>
         frames h' (projr (lookup (dicts h' da) t)) =
           reindex_ffill (frames h a) (union_index (deref h da)) \<and>
         \<not> isl (lookup (dicts h sa) t) \<and>
         \<not> isl (lookup (dicts h' sa) t) \<and>
         next_frame h \<le> projr (lookup (dicts h' sa) t) \<and>
         frames h' (projr (lookup (dicts h' sa) t)) =
           fillna (Fin 0)
             (reindex_ffill (frames h (projr (lookup (dicts h sa) t)))
                (union_index (deref h da)))"
proof -
  let ?idx = "union_index (deref h da)"
  let ?ts = "map fst (dicts h da)"
  from assms(1) have al: "align_heap ?idx da sa ?ts h = (h', None)"
    by (simp add: init_heap_def)
  have pa: "\<forall>t \<in> set ?ts. \<forall>a. lookup (dicts h da) t = Inr a \<longrightarrow> a < next_frame h"
    using assms(4) by (blast dest: dict_allocated_lookup)
  have ps: "\<forall>t \<in> set ?ts. \<forall>a. lookup (dicts h sa) t = Inr a \<longrightarrow> a < next_frame h"
    using assms(5) by (blast dest: dict_allocated_lookup)
  from assms(6) have "t \<in> set ?ts"
    by (rule lookup_keys_iff [THEN iffD1, OF exI])
  with align_heap_dicts [OF al assms(2,3) pa ps] have "realigned ?idx da sa h h' t"
    by (elim conjE bspec)
  then obtain a0 a' g g' where
    r: "lookup (dicts h da) t = Inr a0" "lookup (dicts h' da) t = Inr a'"
       "next_frame h \<le> a'" "frames h' a' = reindex_ffill (frames h a0) ?idx"
       "lookup (dicts h sa) t = Inr g" "lookup (dicts h' sa) t = Inr g'"
       "next_frame h \<le> g'" "frames h' g' = fillna (Fin 0) (reindex_ffill (frames h g) ?idx)"
    unfolding realigned_def by (elim exE conjE)
  from r(1) assms(6) have a0: "a0 = a" by simp
  from align_heap_frames [OF al] have c1: "\<forall>x < next_frame h. frames h' x = frames h x"
    by (rule conjunct2)
  from assms(4,6) have c2: "a < next_frame h"
    by (rule dict_allocated_lookup)
  have c3: "\<not> isl (lookup (dicts h' da) t)" "projr (lookup (dicts h' da) t) = a'"
    "\<not> isl (lookup (dicts h sa) t)" "projr (lookup (dicts h sa) t) = g"
    "\<not> isl (lookup (dicts h' sa) t)" "projr (lookup (dicts h' sa) t) = g'"
    by (simp_all only: r sum.disc sum.sel not_False_eq_True)
  show ?thesis
    unfolding c3(2,4,6) using c1 c2 c3(1,3,5) r(3,4,7,8) unfolding a0
    by (intro conjI) assumption+
qed


text \<open>
  The constructor on the heap computes what \<open>init\<close> computes on the contents of the two
  dicts: \<open>self.data\<close> and \<open>self.signals\<close> are the caller's dicts as they are afterwards.
\<close>

lemma deref_lookup:
  "lookup (dicts h d) t = Inr a \<Longrightarrow> lookup (deref h d) t = Inr (frames h a)"
  by (simp add: lookup_Inr_iff deref_def map_of_map)

lemma map_update_values:
  "map (\<lambda>(k, a). (k, f a)) (AList.update t v d) = AList.update t (f v) (map (\<lambda>(k, a). (k, f a)) d)"
  by (induction d) auto

lemma deref_align_one:
  assumes "da \<noteq> sa" and "dict_allocated h da" and "dict_allocated h sa"
  shows "deref (align_one idx da sa t fa ga h) da =
           AList.update t (reindex_ffill (frames h fa) idx) (deref h da)"
    and "deref (align_one idx da sa t fa ga h) sa =
           AList.update t (fillna (Fin 0) (reindex_ffill (frames h ga) idx)) (deref h sa)"
proof -
  let ?h4 = "align_one idx da sa t fa ga h"
  have same: "map (\<lambda>(k, a). (k, frames ?h4 a)) (dicts h d) = deref h d"
    if "dict_allocated h d" for d
    using that unfolding deref_def dict_allocated_def list_all_iff
    by (intro map_cong refl) (auto simp: align_one_def)
  show "deref ?h4 da = AList.update t (reindex_ffill (frames h fa) idx) (deref h da)"
    using assms(1) same [OF assms(2)]
    by (simp add: deref_def [of ?h4] map_update_values)
       (simp add: align_one_def map_update_values)
  show "deref ?h4 sa =
          AList.update t (fillna (Fin 0) (reindex_ffill (frames h ga) idx)) (deref h sa)"
    using assms(1) same [OF assms(3)]
    by (simp add: deref_def [of ?h4] map_update_values)
       (simp add: align_one_def map_update_values)
qed


lemma set_update_subset: "set (AList.update k v d) \<subseteq> insert (k, v) (set d)"
  by (induction d) auto

lemma dict_allocated_align_one:
  assumes "da \<noteq> sa" and "dict_allocated h da" and "dict_allocated h sa"
  shows "dict_allocated (align_one idx da sa t fa ga h) da"
    and "dict_allocated (align_one idx da sa t fa ga h) sa"
  using assms set_update_subset [of t "next_frame h" "dicts h da"]
    set_update_subset [of t "Suc (next_frame h)" "dicts h sa"]
  unfolding dict_allocated_def list_all_iff
  by (auto simp: align_one_def less_Suc_eq)

lemma align_heap_refines:
  assumes "align_heap idx da sa ts h = (h', None)" and "da \<noteq> sa"
    and "dict_allocated h da" and "dict_allocated h sa"
  shows "align_loop idx ts (deref h da, deref h sa) = Inr (deref h' da, deref h' sa)"
  using assms
proof (induction ts arbitrary: h)
  case Nil
  then show ?case by simp
next
  case (Cons t ts)
  from Cons.prems(4) have "\<forall>a. lookup (dicts h sa) t = Inr a \<longrightarrow> a < next_frame h"
    by (blast dest: dict_allocated_lookup)
  from align_heap_Cons_None [OF Cons.prems(1,2) this] obtain fa ga where
    fa: "lookup (dicts h da) t = Inr fa" and ga: "lookup (dicts h sa) t = Inr ga" and
    rest: "align_heap idx da sa ts (align_one idx da sa t fa ga h) = (h', None)"
    by blast
  note d = deref_align_one [OF Cons.prems(2,3,4), of idx t fa ga]
  note al = dict_allocated_align_one [OF Cons.prems(2,3,4), of idx t fa ga]
  from Cons.IH [OF rest Cons.prems(2) al] show ?case
    by (simp add: deref_lookup [OF fa] deref_lookup [OF ga] d Let_def)
qed

lemma deref_keys: "map fst (deref h d) = map fst (dicts h d)"
  by (simp add: deref_def case_prod_unfold comp_def)

lemma init_heap_refines:
  assumes "init_heap h da sa = (h', None)" and "da \<noteq> sa"
    and "dict_allocated h da" and "dict_allocated h sa"
  shows "\<not> isl (init (deref h da) (deref h sa) w capital slip comm) \<and>
         data (projr (init (deref h da) (deref h sa) w capital slip comm)) = deref h' da \<and>
         signals (projr (init (deref h da) (deref h sa) w capital slip comm)) = deref h' sa"
  using align_heap_refines [OF assms(1) [unfolded init_heap_def] assms(2,3,4)]
  by (simp add: init_def Let_def deref_keys)

subsection \<open>The run and the caller's dicts\<close>

text \<open>The run on the heap assigns only into objects that it has allocated itself.\<close>

lemma unchanged_below_refl: "unchanged_below n h h"
  by (simp add: unchanged_below_def)

lemma unchanged_below_trans:
  "unchanged_below n h h1 \<Longrightarrow> unchanged_below n h1 h2 \<Longrightarrow> unchanged_below n h h2"
  by (simp add: unchanged_below_def)

lemma prev_signal_heap_frame:
  assumes "prev_signal_heap bt h ga dt = (h1, r)" and "n \<le> next_frame h"
  shows "unchanged_below n h h1"
  using assms
  by (auto simp: prev_signal_heap_def alloc_frame_def unchanged_below_def Let_def
      split: list.splits if_splits)

lemma step_ticker_heap_frame:
  assumes "step_ticker_heap bt sa dt (h, st) x = (h1, r)" and "n \<le> next_frame h"
  shows "unchanged_below n h h1"
proof -
  obtain t fa where x: "x = (t, fa)" by (cases x)
  show ?thesis
  proof (cases "at_loc (frames h fa) dt")
    case Inl
    with assms(1) show ?thesis
      by (simp add: step_ticker_heap_def bind_heap_def x unchanged_below_refl)
  next
    case price: (Inr price)
    show ?thesis
    proof (cases "lookup (dicts h sa) t")
      case Inl
      with assms(1) price show ?thesis
        by (simp add: step_ticker_heap_def bind_heap_def x unchanged_below_refl)
    next
      case ga: (Inr ga)
      show ?thesis
      proof (cases "at_loc (frames h ga) dt")
        case Inl
        with assms(1) price ga show ?thesis
          by (simp add: step_ticker_heap_def bind_heap_def x unchanged_below_refl)
      next
        case (Inr sig)
        with assms(1) price ga have "fst (prev_signal_heap bt h ga dt) = h1"
          by (auto simp: step_ticker_heap_def bind_heap_def x split: prod.splits)
        then have "prev_signal_heap bt h ga dt = (h1, snd (prev_signal_heap bt h ga dt))"
          by (simp add: prod_eq_iff)
        then show ?thesis using assms(2) by (rule prev_signal_heap_frame)
      qed
    qed
  qed
qed

lemma fold_heap_frame:
  assumes "\<And>h s x h1 r. n \<le> next_frame h \<Longrightarrow> f (h, s) x = (h1, r) \<Longrightarrow> unchanged_below n h h1"
    and "fold_heap f (h, s) xs = (h', r)" and "n \<le> next_frame h"
  shows "unchanged_below n h h'"
  using assms(2,3)
proof (induction xs arbitrary: h s)
  case Nil
  then show ?case by (simp add: unchanged_below_refl)
next
  case (Cons x xs)
  obtain h1 r1 where f: "f (h, s) x = (h1, r1)" by (cases "f (h, s) x")
  from assms(1) [OF Cons.prems(2) f] have u: "unchanged_below n h h1" .
  show ?case
  proof (cases r1)
    case (Inl e)
    with Cons.prems(1) f have "h' = h1" by simp
    with u show ?thesis by simp
  next
    case (Inr s1)
    with Cons.prems(1) f have r: "fold_heap f (h1, s1) xs = (h', r)" by simp
    from u Cons.prems(2) have "n \<le> next_frame h1" by (simp add: unchanged_below_def)
    from u Cons.IH [OF r this] show ?thesis by (rule unchanged_below_trans)
  qed
qed

lemma step_date_heap_frame:
  assumes "step_date_heap bt da sa ea (h, st) dt = (h', r)" and "n \<le> next_frame h"
    and "n \<le> ea"
  shows "unchanged_below n h h'"
proof -
  obtain h1 r1 where
    f: "fold_heap (step_ticker_heap bt sa dt) (h, st\<lparr>portfolio_value := Fin 0\<rparr>) (dicts h da)
          = (h1, r1)"
    by (cases "fold_heap (step_ticker_heap bt sa dt) (h, st\<lparr>portfolio_value := Fin 0\<rparr>)
                 (dicts h da)")
  have u: "unchanged_below n h h1"
    by (rule fold_heap_frame [OF _ f assms(2)]) (rule step_ticker_heap_frame)
  show ?thesis
  proof (cases r1)
    case (Inl e)
    with assms(1) f have "h' = h1" by (simp add: step_date_heap_def)
    with u show ?thesis by simp
  next
    case (Inr st1)
    with assms(1) f have
      "h' = h1\<lparr>frames := (frames h1)
                 (ea := AList.update dt (fl_add (portfolio_cash st1) (portfolio_value st1))
                          (frames h1 ea))\<rparr>"
      by (simp add: step_date_heap_def)
    with assms(3) have "unchanged_below n h1 h'"
      by (simp add: unchanged_below_def)
    with u show ?thesis by (rule unchanged_below_trans)
  qed
qed

lemma run_heap_frame:
  assumes "run_heap bt da sa h = (h', r)"
  shows "unchanged_below (next_frame h) h h'"
proof -
  let ?h0 = "snd (alloc_frame h (map (\<lambda>d. (d, NaN)) (master_index bt)))"
  let ?ea = "next_frame h"
  obtain h1 r1 where
    f: "fold_heap (step_date_heap bt da sa ?ea) (?h0, initial_state bt) (master_index bt)
          = (h1, r1)"
    by (cases "fold_heap (step_date_heap bt da sa ?ea) (?h0, initial_state bt)
                 (master_index bt)")
  with assms have h': "h' = h1"
    by (cases r1) (simp_all add: run_heap_def alloc_frame_def)
  have n: "next_frame h \<le> next_frame ?h0" by (simp add: alloc_frame_def)
  have "unchanged_below (next_frame h) ?h0 h1"
  proof (rule fold_heap_frame [OF _ f n])
    fix h2 :: heap and s :: sim_state and x h3 r3
    assume "next_frame h \<le> next_frame h2" and "step_date_heap bt da sa ?ea (h2, s) x = (h3, r3)"
    then show "unchanged_below (next_frame h) h2 h3"
      by (intro step_date_heap_frame [of bt da sa ?ea h2 s x h3 r3]) simp_all
  qed
  moreover have "unchanged_below (next_frame h) h ?h0"
    by (simp add: unchanged_below_def alloc_frame_def)
  ultimately show ?thesis
    unfolding h' by (rule unchanged_below_trans [rotated])
qed

lemma align_heap_allocated:
  assumes "align_heap idx da sa ts h = (h', None)" and "da \<noteq> sa"
    and "dict_allocated h da" and "dict_allocated h sa"
  shows "dict_allocated h' da \<and> dict_allocated h' sa"
  using assms
proof (induction ts arbitrary: h)
  case Nil
  then show ?case by simp
next
  case (Cons t ts)
  from Cons.prems(4) have "\<forall>a. lookup (dicts h sa) t = Inr a \<longrightarrow> a < next_frame h"
    by (blast dest: dict_allocated_lookup)
  from align_heap_Cons_None [OF Cons.prems(1,2) this] obtain fa ga where
    rest: "align_heap idx da sa ts (align_one idx da sa t fa ga h) = (h', None)"
    by blast
  note al = dict_allocated_align_one [OF Cons.prems(2,3,4), of idx t fa ga]
  from Cons.IH [OF rest Cons.prems(2) al] show ?case .
qed

text \<open>
  C9, amended: when the construction succeeds on two different dict objects, then after
  constructing and running the simulator none of the table and series objects that existed
  before is modified, but both of the caller's dicts have been assigned into by the
  constructor: for every ticker of the data dict, the data dict holds a newly allocated
  table, the old one reindexed on the master calendar with forward fill, and the signals
  dict holds a newly allocated series, the old one reindexed in the same way with its gaps
  set to 0. The run itself, whether it returns or raises, assigns into no dict and modifies
  no object that existed when it started: the dicts are as the constructor left them.
\<close>

theorem run_keeps_objects_init_rebinds_dicts:
  assumes "backtest_run_heap h da sa weights_arg capital slip comm = (h', r)"
    and "snd (init_heap h da sa) = None" and "da \<noteq> sa"
    and "distinct (map fst (dicts h da))"
    and "dict_allocated h da" and "dict_allocated h sa"
    and "lookup (dicts h da) t = Inr a"
  shows "(\<forall>x < next_frame h. frames h' x = frames h x) \<and>
         dicts h' = dicts (fst (init_heap h da sa)) \<and>
         (\<forall>x < next_frame (fst (init_heap h da sa)).
            frames h' x = frames (fst (init_heap h da sa)) x) \<and>
         a < next_frame h \<and>
         \<not> isl (lookup (dicts h' da) t) \<and>
         next_frame h \<le> projr (lookup (dicts h' da) t) \<and>
         frames h' (projr (lookup (dicts h' da) t)) =
           reindex_ffill (frames h a) (union_index (deref h da)) \<and>
         \<not> isl (lookup (dicts h sa) t) \<and>
         \<not> isl (lookup (dicts h' sa) t) \<and>
         next_frame h \<le> projr (lookup (dicts h' sa) t) \<and>
         frames h' (projr (lookup (dicts h' sa) t)) =
           fillna (Fin 0)
             (reindex_ffill (frames h (projr (lookup (dicts h sa) t)))
                (union_index (deref h da)))"
proof -
  obtain h1 where i: "init_heap h da sa = (h1, None)"
    using assms(2) by (cases "init_heap h da sa") simp
  then have h1: "fst (init_heap h da sa) = h1" by simp
  from assms(1) obtain bt where "run_heap bt da sa h1 = (h', r)"
    by (simp add: backtest_run_heap_def Let_def i)
  from run_heap_frame [OF this] have
    d: "dicts h' = dicts h1" and
    f: "\<forall>x < next_frame h1. frames h' x = frames h1 x"
    by (simp_all add: unchanged_below_def)
  note c = init_rebinds_dicts [OF i assms(3-7)]
  from align_heap_frames [OF i [unfolded init_heap_def]] have
    n: "next_frame h \<le> next_frame h1" by (rule conjunct1)
  from align_heap_allocated [OF i [unfolded init_heap_def] assms(3,5,6)] have
    al: "dict_allocated h1 da" "dict_allocated h1 sa" by simp_all
  from c have "\<not> isl (lookup (dicts h1 da) t)" "\<not> isl (lookup (dicts h1 sa) t)"
    by simp_all
  then obtain a' g' where
    a': "lookup (dicts h1 da) t = Inr a'" and g': "lookup (dicts h1 sa) t = Inr g'"
    by (cases "lookup (dicts h1 da) t"; cases "lookup (dicts h1 sa) t") simp_all
  from al(1) a' have la: "a' < next_frame h1" by (rule dict_allocated_lookup)
  from al(2) g' have lg: "g' < next_frame h1" by (rule dict_allocated_lookup)
  from f la lg have fa: "frames h' a' = frames h1 a'" and fg: "frames h' g' = frames h1 g'"
    by simp_all
  have below: "\<forall>x < next_frame h. frames h' x = frames h x"
  proof (intro allI impI)
    fix x assume x: "x < next_frame h"
    with n have "x < next_frame h1" by simp
    with f have "frames h' x = frames h1 x" by simp
    also from c x have "\<dots> = frames h x" by simp
    finally show "frames h' x = frames h x" .
  qed
  from c show ?thesis
    unfolding h1 d using below f by (simp add: a' g' fa fg)
qed

theorem run_keeps_objects_init_rebinds_dicts_witness:
  "snd (backtest_run_heap two_ticker_heap 0 1 None (Fin 1000) (Fin 0) (Fin 0)) =
     Inr (8, [(''A'', []), (''B'', [])]) \<and>
   frames (fst (backtest_run_heap two_ticker_heap 0 1 None (Fin 1000) (Fin 0) (Fin 0))) 8 =
     [(0, NaN), (1, Fin 1000)] \<and>
   snd (init_heap two_ticker_heap 0 1) = None \<and>
   (0::addr) \<noteq> 1 \<and> distinct (map fst (dicts two_ticker_heap 0)) \<and>
   dict_allocated two_ticker_heap 0 \<and> dict_allocated two_ticker_heap 1 \<and>
   lookup (dicts two_ticker_heap 0) ''B'' = Inr 1 \<and>
   frames (fst (backtest_run_heap two_ticker_heap 0 1 None (Fin 1000) (Fin 0) (Fin 0))) 1 =
     [(1, Fin 50)] \<and>
   lookup (dicts (fst (backtest_run_heap two_ticker_heap 0 1 None (Fin 1000) (Fin 0) (Fin 0))) 0)
     ''B'' = Inr 6 \<and>
   frames (fst (backtest_run_heap two_ticker_heap 0 1 None (Fin 1000) (Fin 0) (Fin 0))) 6 =
     [(0, NaN), (1, Fin 50)]"
proof -
  let ?run = "backtest_run_heap two_ticker_heap 0 1 None (Fin 1000) (Fin 0) (Fin 0)"
  have r: "?run = (fst ?run, snd ?run)" by simp
  have res: "snd ?run = Inr (8, [(''A'', []), (''B'', [])])"
    and eq: "frames (fst ?run) 8 = [(0, NaN), (1, Fin 1000)]"
    and lk: "lookup (dicts (fst ?run) 0) ''B'' = Inr 6"
    by (simp_all add: two_ticker_heap_def backtest_run_heap_def run_heap_def step_date_heap_def
        step_ticker_heap_def bind_heap_def prev_signal_heap_def heap_eval run_eval)
  have i: "snd (init_heap two_ticker_heap 0 1) = None"
    by (simp add: two_ticker_heap_def heap_eval)
  have n: "(0::addr) \<noteq> 1" by simp
  have d: "distinct (map fst (dicts two_ticker_heap 0))"
    by (simp add: two_ticker_heap_def)
  have a0: "dict_allocated two_ticker_heap 0" and a1: "dict_allocated two_ticker_heap 1"
    by (simp_all add: two_ticker_heap_def dict_allocated_def)
  have l: "lookup (dicts two_ticker_heap 0) ''B'' = Inr 1"
    by (simp add: two_ticker_heap_def lookup_def)
  have u: "union_index (deref two_ticker_heap 0) = [0, 1]"
    by (simp add: two_ticker_heap_def deref_def union_index_def)
  have f1: "frames two_ticker_heap 1 = [(1, Fin 50)]"
    and f2: "next_frame two_ticker_heap = 4"
    by (simp_all add: two_ticker_heap_def)
  note th = run_keeps_objects_init_rebinds_dicts [OF r i n d a0 a1 l]
  have lt: "(1::addr) < next_frame two_ticker_heap"
    by (simp add: f2)
  from th [THEN conjunct1, rule_format, OF lt]
  have c1: "frames (fst ?run) 1 = [(1, Fin 50)]"
    by (simp only: f1)
  from th [THEN conjunct2, THEN conjunct2, THEN conjunct2, THEN conjunct2, THEN conjunct2,
      THEN conjunct2, THEN conjunct1]
  have "frames (fst ?run) 6 = reindex_ffill [(1, Fin 50)] [0, 1]"
    by (simp only: lk u f1 sum.sel)
  then have c3: "frames (fst ?run) 6 = [(0, NaN), (1, Fin 50)]"
    by (simp add: reindex_ffill_def ffill_value_def)
  show ?thesis
    by (intro conjI res eq i n d a0 a1 l c1 lk c3)
qed

text \<open>
  The run on the heap computes what \<open>run\<close> computes on the contents of the two dicts, and
  the equity curve that it leaves in the heap is the one that \<open>run\<close> returns.
\<close>

lemma enter_curve:
  "enter bt dt t price (st\<lparr>equity_curve := ec\<rparr>) =
     map_sum id (\<lambda>s. s\<lparr>equity_curve := ec\<rparr>) (enter bt dt t price st)"
  by (cases "lookup (weights bt) t") (simp_all add: enter_def Let_def)

lemma exit_position_curve:
  "exit_position bt dt t price (st\<lparr>equity_curve := ec\<rparr>) =
     map_sum id (\<lambda>s. s\<lparr>equity_curve := ec\<rparr>) (exit_position bt dt t price st)"
  by (cases "trades st t") (simp_all add: exit_position_def Let_def)

lemma bind_err_map_sum:
  assumes "\<And>s. f (g s) = map_sum id g (f' s)"
  shows "bind_err (map_sum id g m) f = map_sum id g (bind_err m f')"
  using assms by (cases m) simp_all

lemma step_ticker_curve:
  "step_ticker bt dt (st\<lparr>equity_curve := ec\<rparr>) x =
     map_sum id (\<lambda>s. s\<lparr>equity_curve := ec\<rparr>) (step_ticker bt dt st x)"
proof -
  obtain t df where x: "x = (t, df)" by (cases x)
  have d: "(case a of
              Entry \<Rightarrow> enter bt dt t price (st\<lparr>equity_curve := ec\<rparr>)
            | Exit \<Rightarrow> exit_position bt dt t price (st\<lparr>equity_curve := ec\<rparr>)
            | Hold \<Rightarrow> Inr (st\<lparr>equity_curve := ec\<rparr>)) =
           map_sum id (\<lambda>s. s\<lparr>equity_curve := ec\<rparr>)
             (case a of Entry \<Rightarrow> enter bt dt t price st
              | Exit \<Rightarrow> exit_position bt dt t price st | Hold \<Rightarrow> Inr st)" for a price
    by (cases a) (simp_all add: enter_curve exit_position_curve)
  show ?thesis
    unfolding x step_ticker_def prod.case
    by (cases "at_loc df dt"; cases "lookup (signals bt) t")
       (auto simp: d bind_err_map_sum bind_err_def split: sum.splits)
qed

lemma fold_ticker_curve:
  "fold_err (step_ticker bt dt) (st\<lparr>equity_curve := ec\<rparr>) xs =
     map_sum id (\<lambda>s. s\<lparr>equity_curve := ec\<rparr>) (fold_err (step_ticker bt dt) st xs)"
proof (induction xs arbitrary: st)
  case Nil
  then show ?case by simp
next
  case (Cons x xs)
  show ?case
    by (cases "step_ticker bt dt st x") (simp_all add: step_ticker_curve Cons.IH)
qed

lemma deref_lookup_Inl:
  "lookup (dicts h d) t = Inl e \<Longrightarrow> lookup (deref h d) t = Inl e"
  by (auto simp: lookup_def deref_def map_of_eq_None_iff image_image case_prod_unfold
      split: option.splits)

lemma prev_signal_heap_snd:
  "snd (prev_signal_heap bt h ga dt) = prev_signal bt (frames h ga) dt"
  by (simp add: prev_signal_heap_def prev_signal_def alloc_frame_def Let_def split: list.splits)

lemma step_ticker_heap_refines:
  assumes s: "step_ticker_heap bt sa dt (h, st) (t, fa) = (h', r)"
    and u: "unchanged_below (next_frame h0) h0 h" and fa: "fa < next_frame h0"
    and sg: "signals bt = deref h0 sa" and al: "dict_allocated h0 sa"
  shows "step_ticker bt dt st (t, frames h0 fa) = r"
proof -
  from u have dc: "dicts h = dicts h0" and
    fr: "\<And>x. x < next_frame h0 \<Longrightarrow> frames h x = frames h0 x"
    by (simp_all add: unchanged_below_def)
  show ?thesis
  proof (cases "at_loc (frames h0 fa) dt")
    case (Inl e)
    with s show ?thesis
      by (simp add: step_ticker_heap_def bind_heap_def step_ticker_def fr [OF fa])
  next
    case price: (Inr price)
    show ?thesis
    proof (cases "lookup (dicts h0 sa) t")
      case (Inl e)
      from deref_lookup_Inl [OF this] Inl s price show ?thesis
        by (simp add: step_ticker_heap_def bind_heap_def step_ticker_def fr [OF fa] dc sg)
    next
      case ga: (Inr ga)
      from al ga have "ga < next_frame h0" by (rule dict_allocated_lookup)
      note g = fr [OF this]
      note l = deref_lookup [OF ga]
      show ?thesis
      proof (cases "at_loc (frames h0 ga) dt")
        case (Inl e)
        with s price ga l show ?thesis
          by (simp add: step_ticker_heap_def bind_heap_def step_ticker_def fr [OF fa] dc sg g)
      next
        case (Inr sig)
        have p: "prev_signal bt (frames h0 ga) dt = snd (prev_signal_heap bt h ga dt)"
          by (simp add: prev_signal_heap_snd g)
        have hp: "at_loc (frames h fa) dt = Inr price" "lookup (dicts h sa) t = Inr ga"
          "at_loc (frames h ga) dt = Inr sig"
          using price ga Inr by (simp_all add: fr [OF fa] dc g)
        from s have "bind_err (snd (prev_signal_heap bt h ga dt)) (\<lambda>prev_sig.
              bind_err (case decide sig prev_sig (positions st t) of
                          Entry \<Rightarrow> enter bt dt t price st
                        | Exit \<Rightarrow> exit_position bt dt t price st
                        | Hold \<Rightarrow> Inr st) (\<lambda>st'.
                Inr (st'\<lparr>portfolio_value :=
                          fl_add (portfolio_value st') (fl_mul (shares st' t) price)\<rparr>))) = r"
          by (simp only: step_ticker_heap_def prod.case bind_heap_def hp sum.case
              case_prod_unfold fst_conv snd_conv prod.inject)
        then show ?thesis
          by (simp only: step_ticker_def prod.case price sg l Inr bind_err_simps p)
      qed
    qed
  qed
qed

lemma inner_heap_refines:
  assumes "fold_heap (step_ticker_heap bt sa dt) (h, st) xs = (h', r)"
    and "unchanged_below (next_frame h0) h0 h"
    and "list_all (\<lambda>(t, a). a < next_frame h0) xs"
    and sg: "signals bt = deref h0 sa" and al: "dict_allocated h0 sa"
  shows "fold_err (step_ticker bt dt) st (map (\<lambda>(t, a). (t, frames h0 a)) xs) = r"
  using assms(1,2,3)
proof (induction xs arbitrary: h st)
  case Nil
  then show ?case by simp
next
  case (Cons x xs)
  obtain t fa where x: "x = (t, fa)" by (cases x)
  obtain h1 r1 where f: "step_ticker_heap bt sa dt (h, st) (t, fa) = (h1, r1)"
    by (cases "step_ticker_heap bt sa dt (h, st) (t, fa)")
  from Cons.prems(3) have fa: "fa < next_frame h0" and
    rest: "list_all (\<lambda>(t, a). a < next_frame h0) xs"
    by (simp_all add: x)
  note here = step_ticker_heap_refines [OF f Cons.prems(2) fa sg al]
  from Cons.prems(2) have "next_frame h0 \<le> next_frame h" by (simp add: unchanged_below_def)
  from step_ticker_heap_frame [OF f this] Cons.prems(2)
  have u1: "unchanged_below (next_frame h0) h0 h1"
    by (rule unchanged_below_trans [rotated])
  show ?case
  proof (cases r1)
    case (Inl e)
    with Cons.prems(1) f have "r = Inl e" by (simp add: x)
    moreover from here Inl have "step_ticker bt dt st (t, frames h0 fa) = Inl e" by simp
    ultimately show ?thesis by (simp add: x)
  next
    case (Inr s1)
    with Cons.prems(1) f have "fold_heap (step_ticker_heap bt sa dt) (h1, s1) xs = (h', r)"
      by (simp add: x)
    moreover from here Inr have "step_ticker bt dt st (t, frames h0 fa) = Inr s1" by simp
    ultimately show ?thesis using Cons.IH [OF _ u1 rest] by (simp add: x)
  qed
qed

lemma update_middle:
  "d \<notin> fst ` set ec \<Longrightarrow> AList.update d v (ec @ (d, w) # rest) = ec @ (d, v) # rest"
  by (induction ec) auto

lemma step_date_heap_refines:
  assumes s: "step_date_heap bt da sa ea (h, st) dt = (h', r)"
    and u: "unchanged_below (next_frame h0) h0 h" and ea: "ea < next_frame h"
    and dt: "data bt = deref h0 da" and sg: "signals bt = deref h0 sa"
    and ald: "dict_allocated h0 da" and al: "dict_allocated h0 sa"
  shows "case r of
           Inl e \<Rightarrow> step_date bt (st\<lparr>equity_curve := ec\<rparr>) dt = Inl e
         | Inr st' \<Rightarrow>
             (\<exists>v. step_date bt (st\<lparr>equity_curve := ec\<rparr>) dt =
                    Inr (st'\<lparr>equity_curve := ec @ [(dt, v)]\<rparr>) \<and>
                  frames h' ea = AList.update dt v (frames h ea))"
proof -
  let ?st0 = "st\<lparr>portfolio_value := Fin 0\<rparr>"
  obtain h1 r1 where
    f: "fold_heap (step_ticker_heap bt sa dt) (h, ?st0) (dicts h da) = (h1, r1)"
    by (cases "fold_heap (step_ticker_heap bt sa dt) (h, ?st0) (dicts h da)")
  from u have dc: "dicts h = dicts h0" by (simp add: unchanged_below_def)
  from ald have "list_all (\<lambda>(t, a). a < next_frame h0) (dicts h da)"
    by (simp add: dc dict_allocated_def)
  from inner_heap_refines [OF f u this sg al]
  have p: "fold_err (step_ticker bt dt) ?st0 (data bt) = r1"
    by (simp add: dt deref_def dc)
  have "st\<lparr>equity_curve := ec, portfolio_value := Fin 0\<rparr> = ?st0\<lparr>equity_curve := ec\<rparr>"
    by simp
  then have q: "fold_err (step_ticker bt dt) (st\<lparr>equity_curve := ec, portfolio_value := Fin 0\<rparr>)
             (data bt) = map_sum id (\<lambda>s. s\<lparr>equity_curve := ec\<rparr>) r1"
    by (simp only: fold_ticker_curve p)
  have keep: "frames h1 ea = frames h ea"
  proof -
    have "unchanged_below (next_frame h) h h1"
      by (rule fold_heap_frame [OF _ f order_refl]) (rule step_ticker_heap_frame)
    with ea show ?thesis by (simp add: unchanged_below_def)
  qed
  show ?thesis
  proof (cases r1)
    case (Inl e)
    with s f have "r = Inl e" by (simp add: step_date_heap_def)
    with q Inl show ?thesis by (simp add: step_date_def)
  next
    case (Inr s1)
    with s f have r: "r = Inr s1" and
      h': "h' = h1\<lparr>frames := (frames h1)
                 (ea := AList.update dt (fl_add (portfolio_cash s1) (portfolio_value s1))
                          (frames h1 ea))\<rparr>"
      by (simp_all add: step_date_heap_def)
    show ?thesis
      unfolding r sum.case
      by (rule exI [of _ "fl_add (portfolio_cash s1) (portfolio_value s1)"])
         (simp add: step_date_def q Inr h' keep)
  qed
qed

lemma outer_heap_refines:
  assumes "fold_heap (step_date_heap bt da sa ea) (h, st) ds = (h', r)"
    and "unchanged_below (next_frame h0) h0 h" and "ea < next_frame h" and "next_frame h0 \<le> ea"
    and "frames h ea = ec @ map (\<lambda>d. (d, NaN)) ds"
    and "distinct ds" and "set ds \<inter> fst ` set ec = {}"
    and dt: "data bt = deref h0 da" and sg: "signals bt = deref h0 sa"
    and ald: "dict_allocated h0 da" and al: "dict_allocated h0 sa"
  shows "case r of
           Inl e \<Rightarrow> fold_err (step_date bt) (st\<lparr>equity_curve := ec\<rparr>) ds = Inl e
         | Inr st' \<Rightarrow>
             fold_err (step_date bt) (st\<lparr>equity_curve := ec\<rparr>) ds =
               Inr (st'\<lparr>equity_curve := frames h' ea\<rparr>)"
  using assms(1-7)
proof (induction ds arbitrary: h st ec)
  case Nil
  then show ?case by auto
next
  case (Cons d ds)
  obtain h1 r1 where f: "step_date_heap bt da sa ea (h, st) d = (h1, r1)"
    by (cases "step_date_heap bt da sa ea (h, st) d")
  note here = step_date_heap_refines [OF f Cons.prems(2,3) dt sg ald al, of ec]
  from Cons.prems(2) have n: "next_frame h0 \<le> next_frame h" by (simp add: unchanged_below_def)
  note fr = step_date_heap_frame [OF f n Cons.prems(4)]
  with Cons.prems(2) have u1: "unchanged_below (next_frame h0) h0 h1"
    by (rule unchanged_below_trans)
  have "unchanged_below (next_frame h) h h1 \<or> True" by simp
  from fr Cons.prems(3) have "next_frame h \<le> next_frame h1" by (simp add: unchanged_below_def)
  with Cons.prems(3) have ea1: "ea < next_frame h1" by simp
  show ?case
  proof (cases r1)
    case (Inl e)
    with Cons.prems(1) f have "r = Inl e" by simp
    with here Inl show ?thesis by simp
  next
    case (Inr s1)
    with Cons.prems(1) f have rest: "fold_heap (step_date_heap bt da sa ea) (h1, s1) ds = (h', r)"
      by simp
    from here Inr obtain v where
      sd: "step_date bt (st\<lparr>equity_curve := ec\<rparr>) d = Inr (s1\<lparr>equity_curve := ec @ [(d, v)]\<rparr>)"
      and fe: "frames h1 ea = AList.update d v (frames h ea)"
      by auto
    from Cons.prems(7) have "d \<notin> fst ` set ec" by auto
    with fe Cons.prems(5) have f1: "frames h1 ea = (ec @ [(d, v)]) @ map (\<lambda>d. (d, NaN)) ds"
      by (simp add: update_middle)
    from Cons.prems(6,7) have d1: "distinct ds" "set ds \<inter> fst ` set (ec @ [(d, v)]) = {}"
      by auto
    from Cons.IH [OF rest u1 ea1 Cons.prems(4) f1 d1] sd show ?thesis
      by (cases r) simp_all
  qed
qed

lemma run_heap_refines:
  assumes r: "run_heap bt da sa h = (h', r)"
    and dt: "data bt = deref h da" and sg: "signals bt = deref h sa"
    and ald: "dict_allocated h da" and al: "dict_allocated h sa"
    and dist: "distinct (master_index bt)"
  shows "case r of
           Inl e \<Rightarrow> run bt = Inl e
         | Inr (ea, logs) \<Rightarrow> run bt = Inr (frames h' ea, logs)"
proof -
  let ?h0 = "snd (alloc_frame h (map (\<lambda>d. (d, NaN)) (master_index bt)))"
  let ?ea = "next_frame h"
  obtain h1 r1 where
    f: "fold_heap (step_date_heap bt da sa ?ea) (?h0, initial_state bt) (master_index bt)
          = (h1, r1)"
    by (cases "fold_heap (step_date_heap bt da sa ?ea) (?h0, initial_state bt)
                 (master_index bt)")
  have u: "unchanged_below (next_frame h) h ?h0"
    by (simp add: unchanged_below_def alloc_frame_def)
  have e: "?ea < next_frame ?h0" by (simp add: alloc_frame_def)
  have fe: "frames ?h0 ?ea = [] @ map (\<lambda>d. (d, NaN)) (master_index bt)"
    by (simp add: alloc_frame_def)
  have i: "(initial_state bt)\<lparr>equity_curve := []\<rparr> = initial_state bt"
    by (simp add: initial_state_def)
  have em: "set (master_index bt) \<inter> fst ` set [] = {}" by simp
  from outer_heap_refines [OF f u e order_refl fe dist em dt sg ald al]
  have o: "case r1 of
           Inl e \<Rightarrow> run_state bt = Inl e
         | Inr st' \<Rightarrow> run_state bt = Inr (st'\<lparr>equity_curve := frames h1 ?ea\<rparr>)"
    by (simp only: i run_state_def)
  have logs: "map (\<lambda>(t, df). (t, trades s t)) (data bt) =
              map (\<lambda>(t, a). (t, trades s t)) (dicts h da)" for s :: sim_state
    by (simp add: dt deref_def case_prod_unfold comp_def)
  show ?thesis
  proof (cases r1)
    case (Inl e)
    with r f have "r = Inl e" by (simp add: run_heap_def alloc_frame_def)
    with o Inl show ?thesis by (simp add: run_def)
  next
    case (Inr s1)
    with r f have "r = Inr (?ea, map (\<lambda>(t, a). (t, trades s1 t)) (dicts h da))" and "h' = h1"
      by (simp_all add: run_heap_def alloc_frame_def)
    with o Inr show ?thesis by (simp add: run_def logs)
  qed
qed

lemma backtest_run_heap_refines:
  assumes r: "backtest_run_heap h da sa weights_arg capital slip comm = (h', r)"
    and i: "snd (init_heap h da sa) = None" and ne: "da \<noteq> sa"
    and ald: "dict_allocated h da" and al: "dict_allocated h sa"
  shows "case r of
           Inl e \<Rightarrow>
             backtest_run (deref h da) (deref h sa) weights_arg capital slip comm = Inl e
         | Inr (ea, logs) \<Rightarrow>
             backtest_run (deref h da) (deref h sa) weights_arg capital slip comm =
               Inr (frames h' ea, logs)"
proof -
  obtain h1 where i1: "init_heap h da sa = (h1, None)"
    using i by (cases "init_heap h da sa") simp
  let ?w = "case weights_arg of
              None \<Rightarrow> default_weights (deref h da)
            | Some [] \<Rightarrow> default_weights (deref h da)
            | Some (x # xs) \<Rightarrow> x # xs"
  let ?bt = "\<lparr>data = deref h1 da, signals = deref h1 sa, weights = ?w,
              initial_capital = capital, slippage = slip, commission = comm,
              master_index = union_index (deref h da)\<rparr>"
  from r have rh: "run_heap ?bt da sa h1 = (h', r)"
    by (simp add: backtest_run_heap_def Let_def i1)
  from align_heap_refines [OF i1 [unfolded init_heap_def] ne ald al]
  have init: "init (deref h da) (deref h sa) weights_arg capital slip comm = Inr ?bt"
    by (simp add: init_def Let_def deref_keys)
  from align_heap_allocated [OF i1 [unfolded init_heap_def] ne ald al]
  have al1: "dict_allocated h1 da" "dict_allocated h1 sa" by simp_all
  have dist: "distinct (master_index ?bt)"
    by (simp add: union_index_def)
  have d: "data ?bt = deref h1 da" and s: "signals ?bt = deref h1 sa" by simp_all
  have br: "backtest_run (deref h da) (deref h sa) weights_arg capital slip comm = run ?bt"
    by (simp add: backtest_run_def init)
  show ?thesis
    unfolding br by (rule run_heap_refines [OF rh d s al1 dist])
qed

subsection \<open>Portfolio simulator: the position flag follows the signal\<close>

lemma align_loop_lookup:
  assumes "align_loop idx ts (d, s) = Inr (d', s')" and "distinct ts"
  shows "(\<forall>t. t \<notin> set ts \<longrightarrow> lookup d' t = lookup d t \<and> lookup s' t = lookup s t) \<and>
         (\<forall>t \<in> set ts. \<exists>df sg. lookup d t = Inr df \<and> lookup s t = Inr sg \<and>
            lookup d' t = Inr (reindex_ffill df idx) \<and>
            lookup s' t = Inr (fillna (Fin 0) (reindex_ffill sg idx)))"
  using assms
proof (induction ts arbitrary: d s)
  case Nil
  then show ?case by simp
next
  case (Cons t ts)
  from Cons.prems(1) obtain df sg where
    df: "lookup d t = Inr df" and sg: "lookup s t = Inr sg" and
    rest: "align_loop idx ts (AList.update t (reindex_ffill df idx) d,
             AList.update t (fillna (Fin 0) (reindex_ffill sg idx)) s) = Inr (d', s')"
    by (auto simp: bind_err_Inr_iff Let_def)
  from Cons.prems(2) have t_notin: "t \<notin> set ts" and dist: "distinct ts" by simp_all
  let ?d1 = "AList.update t (reindex_ffill df idx) d"
  let ?s1 = "AList.update t (fillna (Fin 0) (reindex_ffill sg idx)) s"
  note other = Cons.IH [OF rest dist, THEN conjunct1, rule_format]
  note done_ts = Cons.IH [OF rest dist, THEN conjunct2, rule_format]
  have "\<exists>df sg. lookup d u = Inr df \<and> lookup s u = Inr sg \<and>
          lookup d' u = Inr (reindex_ffill df idx) \<and>
          lookup s' u = Inr (fillna (Fin 0) (reindex_ffill sg idx))" if "u \<in> set (t # ts)" for u
  proof (cases "u = t")
    case True
    with other [OF t_notin] df sg show ?thesis by (simp add: lookup_update)
  next
    case False
    with that have "u \<in> set ts" by simp
    from done_ts [OF this] False show ?thesis by (simp add: lookup_update)
  qed
  moreover have "lookup d' u = lookup d u \<and> lookup s' u = lookup s u" if "u \<notin> set (t # ts)" for u
    using that other [of u] by (simp add: lookup_update)
  ultimately show ?case by (intro conjI allI ballI impI) simp_all
qed

lemma init_lookup:
  assumes "init data_dict signals_dict weights_arg capital slip comm = Inr bt"
    and "distinct (map fst data_dict)" and "lookup (data bt) t = Inr df'"
  shows "\<exists>df sg. lookup data_dict t = Inr df \<and> lookup signals_dict t = Inr sg \<and>
           df' = reindex_ffill df (master_index bt) \<and>
           lookup (signals bt) t = Inr (fillna (Fin 0) (reindex_ffill sg (master_index bt)))"
proof -
  from assms(1) have
    al: "align_loop (union_index data_dict) (map fst data_dict) (data_dict, signals_dict) =
           Inr (data bt, signals bt)" and
    m: "master_index bt = union_index data_dict"
    by (auto simp: init_def Let_def bind_err_Inr_iff)
  from assms(3) have "t \<in> set (map fst (data bt))"
    by (rule lookup_keys_iff [THEN iffD1, OF exI])
  with init_facts(1) [OF assms(1)] have "t \<in> set (map fst data_dict)" by simp
  from align_loop_lookup [OF al assms(2), THEN conjunct2, rule_format, OF this]
  obtain df sg where
    "lookup data_dict t = Inr df" "lookup signals_dict t = Inr sg"
    "lookup (data bt) t = Inr (reindex_ffill df (union_index data_dict))"
    "lookup (signals bt) t = Inr (fillna (Fin 0) (reindex_ffill sg (union_index data_dict)))"
    by (elim exE conjE)
  with assms(3) show ?thesis
    unfolding m by (intro exI [of _ df] exI [of _ sg]) simp
qed




















subsection \<open>Portfolio simulator: closed trades\<close>

lemma fold_err_invariant:
  assumes "fold_err f s xs = Inr s'" and "P s"
    and "\<And>s x s'. x \<in> set xs \<Longrightarrow> P s \<Longrightarrow> f s x = Inr s' \<Longrightarrow> P s'"
  shows "P s'"
  using assms
proof (induction xs arbitrary: s)
  case Nil
  then show ?case by simp
next
  case (Cons x xs)
  from Cons.prems(1) obtain s1 where s1: "f s x = Inr s1" and r: "fold_err f s1 xs = Inr s'"
    by (auto simp: bind_err_Inr_iff)
  have p1: "P s1" by (rule Cons.prems(3) [OF _ Cons.prems(2) s1]) simp
  show ?case
  proof (rule Cons.IH [OF r p1])
    fix s y s'
    assume "y \<in> set xs" and "P s" and "f s y = Inr s'"
    then show "P s'" by (intro Cons.prems(3) [of y s s']) simp_all
  qed
qed

lemma step_ticker_price:
  assumes "step_ticker bt dt st (t, df) = Inr st'"
  obtains price sig prev_sig st1 where
    "at_loc df dt = Inr price"
    and "(case decide sig prev_sig (positions st t) of
        Entry \<Rightarrow> enter bt dt t price st
      | Exit \<Rightarrow> exit_position bt dt t price st
      | Hold \<Rightarrow> Inr st) = Inr st1"
    and "st' = st1\<lparr>portfolio_value :=
                 fl_add (portfolio_value st1) (fl_mul (shares st1 t) price)\<rparr>"
  using assms by (auto simp: step_ticker_def bind_err_Inr_iff)

lemma exits_recorded_cong:
  assumes "trades st' = trades st" "positions st' = positions st" "shares st' = shares st"
  shows "exits_recorded bt st' = exits_recorded bt st"
  using assms by (simp add: exits_recorded_def open_pos_def)

lemma step_ticker_exits_recorded:
  assumes ok: "exits_recorded bt st" and s: "step_ticker bt dt st (t, df) = Inr st'"
    and mem: "(t, df) \<in> set (data bt)" and dist: "distinct (map fst (data bt))"
  shows "exits_recorded bt st'"
proof -
  from s obtain price sig prev_sig st1 where
    p: "at_loc df dt = Inr price" and
    d: "(case decide sig prev_sig (positions st t) of
           Entry \<Rightarrow> enter bt dt t price st
         | Exit \<Rightarrow> exit_position bt dt t price st
         | Hold \<Rightarrow> Inr st) = Inr st1"
    and st': "st' = st1\<lparr>portfolio_value :=
                 fl_add (portfolio_value st1) (fl_mul (shares st1 t) price)\<rparr>"
    by (rule step_ticker_price)
  from ok have op: "\<And>u. open_pos st u"
    and rec: "\<And>u dfu r. (u, dfu) \<in> set (data bt) \<Longrightarrow> r \<in> set (trades st u) \<Longrightarrow>
                 exit_recorded bt dfu r"
    by (auto simp: exits_recorded_def)
  have same: "dfu = df" if "(t, dfu) \<in> set (data bt)" for dfu
    using dist that mem by (rule eq_key_imp_eq_value)
  have "exits_recorded bt st1"
  proof (cases "decide sig prev_sig (positions st t)")
    case Entry
    with d have "enter bt dt t price st = Inr st1" by simp
    then obtain r where
      tr: "trades st1 = (trades st)(t := trades st t @ [r])" and
      r: "exit_time r = None" "trade_shares r = shares st1 t" and
      po: "positions st1 = (positions st)(t := 1)" and
      sh: "\<And>u. u \<noteq> t \<Longrightarrow> shares st1 u = shares st u"
      by (elim enter_Inr) blast
    have "open_pos st1 u" for u
    proof (cases "u = t")
      case True
      with r show ?thesis by (simp add: open_pos_def tr)
    next
      case False
      with op [of u] sh [OF False] show ?thesis
        by (simp add: open_pos_def tr po)
    qed
    moreover have "exit_recorded bt dfu x"
      if "(u, dfu) \<in> set (data bt)" "x \<in> set (trades st1 u)" for u dfu x
    proof -
      from that(2) have "x = r \<or> x \<in> set (trades st u)"
        by (auto simp: tr split: if_splits)
      then show ?thesis
      proof
        assume "x = r"
        with r(1) show ?thesis by (simp add: exit_recorded_def)
      next
        assume "x \<in> set (trades st u)"
        with that(1) show ?thesis by (rule rec)
      qed
    qed
    ultimately show ?thesis
      unfolding exits_recorded_def by (intro conjI allI ballI) (auto simp del: fun_upd_apply)
  next
    case Exit
    then have pos: "positions st t = 1" by (rule decide_Exit)
    with op [of t] have ne: "trades st t \<noteq> []"
      and sh: "trade_shares (last (trades st t)) = shares st t"
      by (auto simp: open_pos_def)
    from Exit d have "exit_position bt dt t price st = Inr st1" by simp
    then have st1: "st1 = st\<lparr>portfolio_cash := fl_add (portfolio_cash st)
                 (fl_sub (fl_mul (shares st t) (fl_mul price (fl_sub (Fin 1) (slippage bt))))
                    (commission bt)),
             trades := (trades st)(t := butlast (trades st t) @
               [(last (trades st t))\<lparr>exit_time := Some dt,
                  exit_price := Some (fl_mul price (fl_sub (Fin 1) (slippage bt))),
                  proceeds := Some (fl_sub (fl_mul (shares st t)
                     (fl_mul price (fl_sub (Fin 1) (slippage bt)))) (commission bt))\<rparr>]),
             shares := (shares st)(t := Fin 0),
             positions := (positions st)(t := 0)\<rparr>"
      by (simp add: exit_position_result [OF ne])
    have new: "exit_recorded bt df ((last (trades st t))\<lparr>exit_time := Some dt,
                  exit_price := Some (fl_mul price (fl_sub (Fin 1) (slippage bt))),
                  proceeds := Some (fl_sub (fl_mul (shares st t)
                     (fl_mul price (fl_sub (Fin 1) (slippage bt)))) (commission bt))\<rparr>)"
      by (simp add: exit_recorded_def p sh)
    have "open_pos st1 u" for u
      using op [of u] by (simp add: st1 open_pos_def)
    moreover have "exit_recorded bt dfu x"
      if m: "(u, dfu) \<in> set (data bt)" and x: "x \<in> set (trades st1 u)" for u dfu x
    proof (cases "u = t")
      case True
      with m have dfu: "dfu = df" by (simp add: same)
      from x True have "x \<in> set (butlast (trades st t)) \<or>
            x = (last (trades st t))\<lparr>exit_time := Some dt,
                  exit_price := Some (fl_mul price (fl_sub (Fin 1) (slippage bt))),
                  proceeds := Some (fl_sub (fl_mul (shares st t)
                     (fl_mul price (fl_sub (Fin 1) (slippage bt)))) (commission bt))\<rparr>"
        by (auto simp: st1)
      then show ?thesis
      proof
        assume "x \<in> set (butlast (trades st t))"
        then have "x \<in> set (trades st t)" by (rule in_set_butlastD)
        with mem show ?thesis unfolding dfu by (rule rec)
      next
        assume "x = (last (trades st t))\<lparr>exit_time := Some dt,
                  exit_price := Some (fl_mul price (fl_sub (Fin 1) (slippage bt))),
                  proceeds := Some (fl_sub (fl_mul (shares st t)
                     (fl_mul price (fl_sub (Fin 1) (slippage bt)))) (commission bt))\<rparr>"
        with new show ?thesis by (simp add: dfu)
      qed
    next
      case False
      with x have "x \<in> set (trades st u)" by (simp add: st1)
      with m show ?thesis by (rule rec)
    qed
    ultimately show ?thesis
      unfolding exits_recorded_def by (intro conjI allI ballI) (auto simp del: fun_upd_apply)
  next
    case Hold
    with d ok show ?thesis by simp
  qed
  moreover have "exits_recorded bt st' = exits_recorded bt st1"
    unfolding st' by (rule exits_recorded_cong) simp_all
  ultimately show ?thesis by simp
qed

lemma step_date_exits_recorded:
  assumes ok: "exits_recorded bt st" and s: "step_date bt st dt = Inr st'"
    and dist: "distinct (map fst (data bt))"
  shows "exits_recorded bt st'"
proof -
  from s obtain st1 where
    f: "fold_err (step_ticker bt dt) (st\<lparr>portfolio_value := Fin 0\<rparr>) (data bt) = Inr st1" and
    st': "st' = st1\<lparr>equity_curve := equity_curve st1 @
             [(dt, fl_add (portfolio_cash st1) (portfolio_value st1))]\<rparr>"
    by (auto simp: step_date_def bind_err_Inr_iff)
  have "exits_recorded bt (st\<lparr>portfolio_value := Fin 0\<rparr>) = exits_recorded bt st"
    by (rule exits_recorded_cong) simp_all
  with ok have ok0: "exits_recorded bt (st\<lparr>portfolio_value := Fin 0\<rparr>)" by simp
  have "exits_recorded bt st1"
  proof (rule fold_err_invariant [where P = "exits_recorded bt", OF f ok0])
    fix s x s'
    assume x: "x \<in> set (data bt)" and e: "exits_recorded bt s"
      and st: "step_ticker bt dt s x = Inr s'"
    obtain t df where "x = (t, df)" by (cases x)
    with x st have "step_ticker bt dt s (t, df) = Inr s'" "(t, df) \<in> set (data bt)"
      by simp_all
    with e show "exits_recorded bt s'"
      using dist by (rule step_ticker_exits_recorded)
  qed
  moreover have "exits_recorded bt st' = exits_recorded bt st1"
    unfolding st' by (rule exits_recorded_cong) simp_all
  ultimately show ?thesis by simp
qed

lemma run_state_exits_recorded:
  assumes "run_state bt = Inr st" and "distinct (map fst (data bt))"
  shows "exits_recorded bt st"
proof -
  have "exits_recorded bt (initial_state bt)"
    by (simp add: exits_recorded_def open_pos_def initial_state_def)
  from fold_err_invariant [where P = "exits_recorded bt",
      OF assms(1) [unfolded run_state_def] this]
  show ?thesis
    using assms(2) by (auto intro: step_date_exits_recorded)
qed

lemma init_costs:
  assumes "init data_dict signals_dict weights_arg capital slip comm = Inr bt"
  shows "slippage bt = slip" and "commission bt = comm"
  using assms by (auto simp: init_def Let_def bind_err_Inr_iff)

lemma at_loc_reindex_ffill:
  "at_loc (reindex_ffill df idx) x = Inr p \<Longrightarrow> p = ffill_value df x"
  by (induction idx) (auto simp: at_loc_def lookup_def reindex_ffill_def split: if_splits)

lemma lookup_in_set: "lookup d k = Inr v \<Longrightarrow> (k, v) \<in> set d"
  by (auto simp: lookup_def split: option.splits dest: map_of_SomeD)

lemma run_exit_price:
  assumes run: "backtest_run data_dict signals_dict weights_arg capital slip comm =
                  Inr (equity, logs)"
    and dist: "distinct (map fst data_dict)" and df: "lookup data_dict t = Inr df"
    and ls: "(t, ls) \<in> set logs" and r: "r \<in> set ls" and x: "exit_time r = Some x"
  shows "exit_price r = Some (fl_mul (ffill_value df x) (fl_sub (Fin 1) slip)) \<and>
         proceeds r =
           Some (fl_sub (fl_mul (trade_shares r)
                   (fl_mul (ffill_value df x) (fl_sub (Fin 1) slip))) comm)"
proof -
  from run obtain bt st where
    i: "init data_dict signals_dict weights_arg capital slip comm = Inr bt" and
    rs: "run_state bt = Inr st" and
    l: "logs = map (\<lambda>(t, df). (t, trades st t)) (data bt)"
    by (auto simp: backtest_run_def run_def bind_err_Inr_iff)
  from ls l have lst: "ls = trades st t" by auto
  from init_facts(1) [OF i] dist have dist': "distinct (map fst (data bt))" by simp
  from ls l obtain df' where m: "(t, df') \<in> set (data bt)" by auto
  with dist' have "lookup (data bt) t = Inr df'"
    by (simp add: lookup_def)
  from init_lookup [OF i dist this] df
  have df': "df' = reindex_ffill df (master_index bt)" by auto
  from run_state_exits_recorded [OF rs dist'] m r
  have "exit_recorded bt df' r"
    unfolding exits_recorded_def lst by blast
  with x have a: "\<not> isl (at_loc df' x)"
    and e: "exit_price r = Some (fl_mul (projr (at_loc df' x)) (fl_sub (Fin 1) (slippage bt)))"
    and p: "proceeds r = Some (fl_sub (fl_mul (trade_shares r)
                    (fl_mul (projr (at_loc df' x)) (fl_sub (Fin 1) (slippage bt))))
                  (commission bt))"
    by (simp_all add: exit_recorded_def)
  from a obtain price where price: "at_loc df' x = Inr price"
    by (cases "at_loc df' x") simp_all
  then have "price = ffill_value df x"
    unfolding df' by (rule at_loc_reindex_ffill)
  with e p price show ?thesis
    by (simp add: init_costs [OF i])
qed

text \<open>
  C6 says that at an exit the proceeds are \<open>shares * price * (1 - slippage) - commission\<close>,
  that they are added to the cash, and that with no slippage and no commission a full
  entry-then-exit cycle at one price leaves the cash unchanged. At a price of 0 the entry
  buys \<open>500 / 0\<close> shares, an infinite number, for \<open>inf * 0\<close>, which is NaN: the cash is NaN
  after the entry and stays NaN after the exit, in the two steps and in the whole run.
\<close>

theorem round_trip_zero_price_counterexample:
  "slippage demo_bt = Fin 0 \<and> commission demo_bt = Fin 0 \<and>
   portfolio_cash (initial_state demo_bt) = Fin 1000 \<and>
   \<not> isl (bind_err (enter demo_bt 0 ''A'' (Fin 0) (initial_state demo_bt))
            (exit_position demo_bt 1 ''A'' (Fin 0))) \<and>
   portfolio_cash (projr (bind_err (enter demo_bt 0 ''A'' (Fin 0) (initial_state demo_bt))
       (exit_position demo_bt 1 ''A'' (Fin 0)))) = NaN \<and>
   portfolio_cash (projr (bind_err (enter demo_bt 0 ''A'' (Fin 0) (initial_state demo_bt))
       (exit_position demo_bt 1 ''A'' (Fin 0)))) \<noteq> portfolio_cash (initial_state demo_bt) \<and>
   backtest_run zero_prices (signals demo_bt) (Some (weights demo_bt)) (Fin 1000) (Fin 0) (Fin 0)
     = Inr ([(0, NaN), (1, NaN)],
            [(''A'', [\<lparr>entry_time = 0, entry_price = Fin 0, trade_shares = PInf,
                         exit_time = Some 1, exit_price = Some (Fin 0),
                         proceeds = Some NaN\<rparr>])])"
  by (simp add: demo_bt_def zero_prices_def run_eval inf_scale_def)

text \<open>
  C6, for an entry at a finite price other than 0 with finite cash and weight: every closed
  trade in the log that a run returns for an instrument has as its exit price the close of
  that instrument on the exit date (the last close on or before it, as the constructor
  aligns the table) times \<open>1 - slippage\<close>, and as its proceeds
  \<open>shares * exit_price - commission\<close>; the exit block computes the proceeds from the close
  of the date and adds them to the cash; and with no slippage and no commission, an entry
  followed by the exit at the same price leaves the cash as it was.
\<close>

theorem exit_proceeds_and_round_trip:
  "(backtest_run data_dict signals_dict weights_arg capital slip comm = Inr (equity, logs) \<and>
    distinct (map fst data_dict) \<and> lookup data_dict t' = Inr df \<and>
    (t', ls) \<in> set logs \<and> r \<in> set ls \<and> exit_time r = Some x \<longrightarrow>
      exit_price r = Some (fl_mul (ffill_value df x) (fl_sub (Fin 1) slip)) \<and>
      proceeds r =
        Some (fl_sub (fl_mul (trade_shares r)
                (fl_mul (ffill_value df x) (fl_sub (Fin 1) slip))) comm)) \<and>
   (trades st t \<noteq> [] \<longrightarrow>
      \<not> isl (exit_position bt dt t price st) \<and>
      exit_price (last (trades (projr (exit_position bt dt t price st)) t)) =
        Some (fl_mul price (fl_sub (Fin 1) (slippage bt))) \<and>
      proceeds (last (trades (projr (exit_position bt dt t price st)) t)) =
        Some (fl_sub (fl_mul (shares st t) (fl_mul price (fl_sub (Fin 1) (slippage bt))))
               (commission bt)) \<and>
      portfolio_cash (projr (exit_position bt dt t price st)) =
        fl_add (portfolio_cash st)
          (fl_sub (fl_mul (shares st t) (fl_mul price (fl_sub (Fin 1) (slippage bt))))
             (commission bt))) \<and>
   (portfolio_cash st = Fin c \<and> lookup (weights bt) t = Inr (Fin w) \<and> p \<noteq> 0 \<and>
    slippage bt = Fin 0 \<and> commission bt = Fin 0 \<longrightarrow>
      \<not> isl (bind_err (enter bt d1 t (Fin p) st) (exit_position bt d2 t (Fin p))) \<and>
      portfolio_cash (projr (bind_err (enter bt d1 t (Fin p) st) (exit_position bt d2 t (Fin p))))
        = portfolio_cash st)"
proof (rule conjI)
  show "backtest_run data_dict signals_dict weights_arg capital slip comm = Inr (equity, logs) \<and>
    distinct (map fst data_dict) \<and> lookup data_dict t' = Inr df \<and>
    (t', ls) \<in> set logs \<and> r \<in> set ls \<and> exit_time r = Some x \<longrightarrow>
      exit_price r = Some (fl_mul (ffill_value df x) (fl_sub (Fin 1) slip)) \<and>
      proceeds r =
        Some (fl_sub (fl_mul (trade_shares r)
                (fl_mul (ffill_value df x) (fl_sub (Fin 1) slip))) comm)"
  proof
    assume h: "backtest_run data_dict signals_dict weights_arg capital slip comm =
        Inr (equity, logs) \<and>
      distinct (map fst data_dict) \<and> lookup data_dict t' = Inr df \<and>
      (t', ls) \<in> set logs \<and> r \<in> set ls \<and> exit_time r = Some x"
    show "exit_price r = Some (fl_mul (ffill_value df x) (fl_sub (Fin 1) slip)) \<and>
      proceeds r =
        Some (fl_sub (fl_mul (trade_shares r)
                (fl_mul (ffill_value df x) (fl_sub (Fin 1) slip))) comm)"
      by (rule run_exit_price [of data_dict signals_dict weights_arg capital slip comm
            equity logs t' df ls r x]) (simp_all add: h)
  qed
next
  show "(trades st t \<noteq> [] \<longrightarrow>
      \<not> isl (exit_position bt dt t price st) \<and>
      exit_price (last (trades (projr (exit_position bt dt t price st)) t)) =
        Some (fl_mul price (fl_sub (Fin 1) (slippage bt))) \<and>
      proceeds (last (trades (projr (exit_position bt dt t price st)) t)) =
        Some (fl_sub (fl_mul (shares st t) (fl_mul price (fl_sub (Fin 1) (slippage bt))))
               (commission bt)) \<and>
      portfolio_cash (projr (exit_position bt dt t price st)) =
        fl_add (portfolio_cash st)
          (fl_sub (fl_mul (shares st t) (fl_mul price (fl_sub (Fin 1) (slippage bt))))
             (commission bt))) \<and>
   (portfolio_cash st = Fin c \<and> lookup (weights bt) t = Inr (Fin w) \<and> p \<noteq> 0 \<and>
    slippage bt = Fin 0 \<and> commission bt = Fin 0 \<longrightarrow>
      \<not> isl (bind_err (enter bt d1 t (Fin p) st) (exit_position bt d2 t (Fin p))) \<and>
      portfolio_cash (projr (bind_err (enter bt d1 t (Fin p) st) (exit_position bt d2 t (Fin p))))
        = portfolio_cash st)"
    by (rule exit_and_round_trip_steps)
qed

theorem exit_proceeds_and_round_trip_witness:
  "backtest_run rise_prices rise_signals (Some (weights slip_bt)) (Fin 1000)
     (Fin (1 / 10)) (Fin 5) = Inr ([(0, Fin 945), (1, Fin 980)], [(''A'', rise_log)]) \<and>
   distinct (map fst rise_prices) \<and>
   lookup rise_prices ''A'' = Inr [(0, Fin 100), (1, Fin 120)] \<and>
   ffill_value [(0, Fin 100), (1, Fin 120)] 1 = Fin 120 \<and>
   exit_time (hd rise_log) = Some 1 \<and>
   exit_price (hd rise_log) = Some (Fin 108) \<and>
   proceeds (hd rise_log) = Some (Fin 535) \<and>
   trades holding_state ''A'' \<noteq> [] \<and>
   proceeds (last (trades (projr (exit_position slip_bt 1 ''A'' (Fin 100) holding_state)) ''A''))
     = Some (Fin 355) \<and>
   portfolio_cash (initial_state demo_bt) = Fin 1000 \<and>
   lookup (weights demo_bt) ''A'' = Inr (Fin (1 / 2)) \<and> (100::real) \<noteq> 0 \<and>
   slippage demo_bt = Fin 0 \<and> commission demo_bt = Fin 0 \<and>
   portfolio_cash (projr (bind_err (enter demo_bt 0 ''A'' (Fin 100) (initial_state demo_bt))
       (exit_position demo_bt 1 ''A'' (Fin 100)))) = Fin 1000"
proof -
  have run: "backtest_run rise_prices rise_signals (Some (weights slip_bt)) (Fin 1000)
     (Fin (1 / 10)) (Fin 5) = Inr ([(0, Fin 945), (1, Fin 980)], [(''A'', rise_log)])"
    by (simp add: rise_prices_def rise_signals_def slip_bt_def demo_bt_def rise_log_def run_eval)
  have m: "distinct (map fst rise_prices)"
    "lookup rise_prices ''A'' = Inr [(0, Fin 100), (1, Fin 120)]"
    "(''A'', rise_log) \<in> set [(''A'', rise_log)]" "hd rise_log \<in> set rise_log"
    "exit_time (hd rise_log) = Some 1"
    by (simp_all add: rise_log_def rise_prices_def lookup_def)
  have f: "ffill_value [(0, Fin 100), (1, Fin 120)] 1 = Fin 120"
    by (simp add: ffill_value_def)
  note th1 = exit_proceeds_and_round_trip
      [of rise_prices rise_signals "Some (weights slip_bt)" "Fin 1000" "Fin (1 / 10)"
        "Fin 5" "[(0, Fin 945), (1, Fin 980)]" "[(''A'', rise_log)]" "''A''"
        "[(0, Fin 100), (1, Fin 120)]" rise_log
        "hd rise_log" 1 holding_state "''A''" slip_bt 1 "Fin 100" 1000 "1 / 2" 100 0 1]
  from th1 [THEN conjunct1] run m have
    "exit_price (hd rise_log) =
       Some (fl_mul (ffill_value [(0, Fin 100), (1, Fin 120)] 1) (fl_sub (Fin 1) (Fin (1 / 10)))) \<and>
     proceeds (hd rise_log) =
       Some (fl_sub (fl_mul (trade_shares (hd rise_log))
               (fl_mul (ffill_value [(0, Fin 100), (1, Fin 120)] 1)
                  (fl_sub (Fin 1) (Fin (1 / 10))))) (Fin 5))"
    by (elim impE) (intro conjI)
  then have c1: "exit_price (hd rise_log) = Some (Fin 108)"
    "proceeds (hd rise_log) = Some (Fin 535)"
    by (simp_all add: f rise_log_def fl_sub_def)
  from th1 [THEN conjunct2] have
    c2: "trades holding_state ''A'' \<noteq> [] \<and>
     proceeds (last (trades (projr (exit_position slip_bt 1 ''A'' (Fin 100) holding_state))
       ''A'')) = Some (Fin 355)"
    by (simp add: holding_state_def demo_bt_def slip_bt_def initial_state_def fl_sub_def)
  from exit_proceeds_and_round_trip
      [of _ _ _ _ _ _ _ _ _ _ _ _ _ "initial_state demo_bt" "''A''" demo_bt 1 "Fin 100" 1000
        "1 / 2" 100 0 1, THEN conjunct2]
  have c3: "portfolio_cash (initial_state demo_bt) = Fin 1000 \<and>
     lookup (weights demo_bt) ''A'' = Inr (Fin (1 / 2)) \<and> (100::real) \<noteq> 0 \<and>
     slippage demo_bt = Fin 0 \<and> commission demo_bt = Fin 0 \<and>
     portfolio_cash (projr (bind_err (enter demo_bt 0 ''A'' (Fin 100) (initial_state demo_bt))
       (exit_position demo_bt 1 ''A'' (Fin 100)))) = Fin 1000"
    by (simp add: demo_bt_def initial_state_def lookup_def fl_sub_def)
  from run m f c1 c2 c3 show ?thesis by simp
qed

end
